theory Spec2Isabelle
  imports Main "HOL-Library.Word"
begin

section \<open>Go values used by transform.go\<close>

text \<open>
  The program is a single Go file, \<^verbatim>\<open>transform.go\<close>. Its functions are embedded one by
  one, under their own names and with the names of their variables. What the program
  takes from the Go standard library (\<^verbatim>\<open>encoding/csv\<close>, \<^verbatim>\<open>encoding/json\<close>, \<^verbatim>\<open>os\<close>,
  \<^verbatim>\<open>math/rand\<close>) is a parameter of the embedded function or a small model of the library's
  documented behaviour, given in the next section.

  Go's \<^verbatim>\<open>int\<close> is taken to be 64 bits wide (as on amd64 and arm64): the parameters
  \<^verbatim>\<open>maxSizeKB\<close>, \<^verbatim>\<open>trainCount\<close> and \<^verbatim>\<open>testCount\<close> are \<open>64 word\<close>, their arithmetic wraps
  around, and \<open>sint\<close> reads the signed value. Lengths, loop indices and the entries of
  a permutation of indices, which stay between 0 and the length of a slice, are natural
  numbers.
\<close>

type_synonym go_int = "64 word"

text \<open>Error values of the standard library, compared by \<^verbatim>\<open>==\<close> in the program.\<close>

datatype go_error =
    io_EOF
  | csv_ErrFieldCount
  | csv_ErrQuote
  | csv_ParseError go_error
  | other_error string

text \<open>
  The errors the program itself builds with \<^verbatim>\<open>fmt.Errorf\<close>, one constructor for each
  message, and the run-time panics of index, slice and \<^verbatim>\<open>make\<close> expressions. The first six
  are named after the kinds of error of the specification.
\<close>

datatype error =
    InputOpenError go_error
  | HeaderReadError go_error
  | MalformedRecordError go_error
  | InsufficientDataError int int int
  | SerializationError go_error
  | FinalSerializationError go_error
  | WriteError go_error
  | ChunkWriteError string error
  | Panic_index_out_of_range
  | Panic_slice_bounds_out_of_range
  | Panic_makeslice_cap_out_of_range

text \<open>The three struct types (lines 23 to 39).\<close>

record TrainingEmailRecord =
  ID :: string
  Email :: string

record TrainingResultRecord =
  ID :: string
  Result :: bool

record EmailRecord =
  ID :: string
  Email :: string
  Result :: bool

text \<open>
  A slice is a list. Where it matters whether a slice is nil (it does for
  \<^verbatim>\<open>encoding/json\<close>), a slice is a \<open>list option\<close>: \<open>None\<close> is the nil slice, \<open>Some xs\<close> one
  that was allocated. \<^verbatim>\<open>append\<close> allocates when the slice is nil, a \<^verbatim>\<open>range\<close> loop over a
  nil slice visits nothing, and \<^verbatim>\<open>make([]T, 0, cap)\<close> panics for a negative capacity and
  otherwise gives an empty slice that is not nil.
\<close>

fun go_append :: "'a list option \<Rightarrow> 'a \<Rightarrow> 'a list option" where
  "go_append None x = Some [x]"
| "go_append (Some xs) x = Some (xs @ [x])"

definition elems :: "'a list option \<Rightarrow> 'a list" where
  "elems s = (case s of None \<Rightarrow> [] | Some xs \<Rightarrow> xs)"

definition go_make :: "int \<Rightarrow> error + 'a list option" where
  "go_make cap = (if cap < 0 then Inl Panic_makeslice_cap_out_of_range else Inr (Some []))"

text \<open>
  An index expression \<^verbatim>\<open>s[i]\<close> panics out of range. A slice expression \<^verbatim>\<open>s[lo:hi]\<close> with
  Go int bounds panics unless \<open>0 \<le> lo \<le> hi \<le> cap(s)\<close>; it is used on the result of
  \<^verbatim>\<open>Perm\<close>, whose capacity is its length. \<open>subslice\<close> is the same expression where the
  program keeps \<open>lo \<le> hi \<le> length xs\<close> by its loop conditions.
\<close>

definition index :: "'a list \<Rightarrow> nat \<Rightarrow> error + 'a" where
  "index xs i = (if i < length xs then Inr (xs ! i) else Inl Panic_index_out_of_range)"

definition go_slice_expr :: "'a list \<Rightarrow> int \<Rightarrow> int \<Rightarrow> error + 'a list" where
  "go_slice_expr xs lo hi =
     (if 0 \<le> lo \<and> lo \<le> hi \<and> hi \<le> int (length xs)
      then Inr (take (nat hi - nat lo) (drop (nat lo) xs))
      else Inl Panic_slice_bounds_out_of_range)"

definition subslice :: "'a list \<Rightarrow> nat \<Rightarrow> nat \<Rightarrow> 'a list" where
  "subslice xs lo hi = take (hi - lo) (drop lo xs)"

section \<open>The standard library\<close>

subsection \<open>encoding/csv\<close>

text \<open>
  A file is given by what the reader finds in it, in order: a record (its fields), or
  the error of parsing or of reading that it meets there. After the last item
  \<^verbatim>\<open>Read\<close> returns \<^verbatim>\<open>io.EOF\<close>.

  \<^verbatim>\<open>Read\<close> returns a record and an error. As the package documents, a reader made by
  \<^verbatim>\<open>NewReader\<close> has \<^verbatim>\<open>FieldsPerRecord\<close> 0, the first record read sets it to its number of
  fields, and every later record must have that number. A record of another length is
  returned together with an error: a \<^verbatim>\<open>*csv.ParseError\<close> whose \<^verbatim>\<open>Err\<close> field is
  \<^verbatim>\<open>csv.ErrFieldCount\<close> (the package lists \<^verbatim>\<open>ErrFieldCount\<close> among the errors that can be
  returned in \<^verbatim>\<open>ParseError.Err\<close>, and its reader builds
  \<^verbatim>\<open>&ParseError{StartLine: recLine, Line: recLine, Column: 1, Err: ErrFieldCount}\<close>). The
  line and column of a \<^verbatim>\<open>ParseError\<close> are left out here, and so is the partial record
  that comes with an error of parsing, which the program does not look at.
\<close>

type_synonym csv_input = "(go_error + string list) list"

record csv_Reader =
  FieldsPerRecord :: int
  input :: csv_input

definition csv_NewReader :: "csv_input \<Rightarrow> csv_Reader" where
  "csv_NewReader csvFile = \<lparr>FieldsPerRecord = 0, input = csvFile\<rparr>"

definition csv_Read :: "csv_Reader \<Rightarrow> (string list \<times> go_error option) \<times> csv_Reader" where
  "csv_Read r =
     (case input r of
        [] \<Rightarrow> (([], Some io_EOF), r)
      | Inl err # rest \<Rightarrow> (([], Some err), r\<lparr>input := rest\<rparr>)
      | Inr record # rest \<Rightarrow>
          if FieldsPerRecord r > 0 then
            (if int (length record) \<noteq> FieldsPerRecord r
             then ((record, Some (csv_ParseError csv_ErrFieldCount)), r\<lparr>input := rest\<rparr>)
             else ((record, None), r\<lparr>input := rest\<rparr>))
          else if FieldsPerRecord r = 0 then
            ((record, None), r\<lparr>FieldsPerRecord := int (length record), input := rest\<rparr>)
          else ((record, None), r\<lparr>input := rest\<rparr>))"

subsection \<open>encoding/json\<close>

text \<open>
  What \<^verbatim>\<open>json.MarshalIndent(v, "", "  ")\<close> writes for the values the program marshals:
  slices of the three struct types. A nil slice is written \<^verbatim>\<open>null\<close>, an empty slice that
  is not nil \<^verbatim>\<open>[]\<close>. Arrays and objects put each element on a line of its own, indented
  by two spaces for each level. The keys are the struct tags. How the library writes a
  Go string (the quotes and its escapes) is the parameter \<open>enc\<close>; \<open>json_quote\<close> is what it
  writes for a string of plain letters, digits and the like, which needs no escape.
  For these types the library returns no error.
\<close>

definition newline :: "nat \<Rightarrow> string" where
  "newline depth = CHR 0x0A # replicate (2 * depth) (CHR '' '')"

definition json_bool :: "bool \<Rightarrow> string" where
  "json_bool b = (if b then ''true'' else ''false'')"

definition json_EmailRecord :: "(string \<Rightarrow> string) \<Rightarrow> EmailRecord \<Rightarrow> string" where
  "json_EmailRecord enc r =
     ''{'' @ newline 2 @ ''\"id\": '' @ enc (EmailRecord.ID r) @
     '','' @ newline 2 @ ''\"email\": '' @ enc (EmailRecord.Email r) @
     '','' @ newline 2 @ ''\"phish\": '' @ json_bool (EmailRecord.Result r) @
     newline 1 @ ''}''"

definition json_TrainingEmailRecord :: "(string \<Rightarrow> string) \<Rightarrow> TrainingEmailRecord \<Rightarrow> string" where
  "json_TrainingEmailRecord enc r =
     ''{'' @ newline 2 @ ''\"id\": '' @ enc (TrainingEmailRecord.ID r) @
     '','' @ newline 2 @ ''\"email\": '' @ enc (TrainingEmailRecord.Email r) @
     newline 1 @ ''}''"

definition json_TrainingResultRecord :: "(string \<Rightarrow> string) \<Rightarrow> TrainingResultRecord \<Rightarrow> string" where
  "json_TrainingResultRecord enc r =
     ''{'' @ newline 2 @ ''\"id\": '' @ enc (TrainingResultRecord.ID r) @
     '','' @ newline 2 @ ''\"phish\": '' @ json_bool (TrainingResultRecord.Result r) @
     newline 1 @ ''}''"

definition json_slice :: "('a \<Rightarrow> string) \<Rightarrow> 'a list option \<Rightarrow> string" where
  "json_slice elem v =
     (case v of
        None \<Rightarrow> ''null''
      | Some [] \<Rightarrow> ''[]''
      | Some (x # xs) \<Rightarrow>
          ''['' @ newline 1 @ elem x @ concat (map (\<lambda>y. '','' @ newline 1 @ elem y) xs) @
          newline 0 @ '']'')"

definition json_quote :: "string \<Rightarrow> string" where
  "json_quote s = ''\"'' @ s @ ''\"''"

definition MarshalIndent_slice :: "('a \<Rightarrow> string) \<Rightarrow> 'a list option \<Rightarrow> go_error + string" where
  "MarshalIndent_slice elem v = Inr (json_slice elem v)"

definition MarshalIndent_EmailRecords :: "(string \<Rightarrow> string) \<Rightarrow> EmailRecord list \<Rightarrow> go_error + string" where
  "MarshalIndent_EmailRecords enc rs = Inr (json_slice (json_EmailRecord enc) (Some rs))"

subsection \<open>os and fmt\<close>

text \<open>
  The file system is the list of files written so far, oldest first, each with its name
  and its bytes. Whether \<^verbatim>\<open>os.WriteFile\<close> fails is up to the environment: \<open>fault\<close> says,
  for the files written so far, a name and the data, with which error the call fails
  (\<open>None\<close>: it succeeds). A failed call adds no file.
\<close>

type_synonym files = "(string \<times> string) list"

type_synonym write_fault = "files \<Rightarrow> string \<Rightarrow> string \<Rightarrow> go_error option"

definition os_WriteFile :: "write_fault \<Rightarrow> files \<Rightarrow> string \<Rightarrow> string \<Rightarrow> files \<times> go_error option" where
  "os_WriteFile fault fs filename data =
     (case fault fs filename data of
        Some e \<Rightarrow> (fs, Some e)
      | None \<Rightarrow> (fs @ [(filename, data)], None))"

text \<open>\<^verbatim>\<open>fmt.Sprintf("%s_%d.json", fileNamePrefix, chunkNum)\<close>: the number in decimal.\<close>

fun decimal :: "nat \<Rightarrow> string" where
  "decimal n =
     (if n < 10 then [''0123456789'' ! n]
      else decimal (n div 10) @ [''0123456789'' ! (n mod 10)])"

declare decimal.simps [simp del]

definition chunk_name :: "string \<Rightarrow> nat \<Rightarrow> string" where
  "chunk_name fileNamePrefix chunkNum = fileNamePrefix @ ''_'' @ decimal chunkNum @ ''.json''"

section \<open>ReadCSV\<close>

text \<open>
  The struct literal of lines 65 to 69: it indexes the record three times, so a record
  of fewer than three fields panics.
\<close>

definition new_EmailRecord :: "string list \<Rightarrow> error + EmailRecord" where
  "new_EmailRecord record =
     (case index record 0 of
        Inl panic \<Rightarrow> Inl panic
      | Inr f0 \<Rightarrow>
     (case index record 1 of
        Inl panic \<Rightarrow> Inl panic
      | Inr f1 \<Rightarrow>
     (case index record 2 of
        Inl panic \<Rightarrow> Inl panic
      | Inr f2 \<Rightarrow> Inr \<lparr>ID = f0, Email = f1, Result = (f2 = ''Phishing Email'')\<rparr>)))"

text \<open>
  The loop of lines 56 to 72. It ends by the \<^verbatim>\<open>return\<close> of line 60, taken when the error
  is \<^verbatim>\<open>csv.ErrFieldCount\<close> itself, or by the \<^verbatim>\<open>break\<close> of line 62, taken on every other error.
  Each call of \<^verbatim>\<open>Read\<close> that returns no error takes a record from the input, which gives
  the measure. \<open>records\<close> starts as the nil slice; nothing later tells it from an empty
  one, so it is a plain list.
\<close>

lemma csv_Read_consumes:
  "csv_Read r = ((record, None), r') \<Longrightarrow> length (input r') < length (input r)"
  by (auto simp: csv_Read_def split: list.splits sum.splits if_splits)

function read_loop :: "csv_Reader \<Rightarrow> EmailRecord list \<Rightarrow> error + EmailRecord list" where
  "read_loop csvReader records =
     (case csv_Read csvReader of
        ((record, Some recordReadErr), csvReader') \<Rightarrow>
          if recordReadErr = csv_ErrFieldCount then Inl (MalformedRecordError recordReadErr)
          else Inr records
      | ((record, None), csvReader') \<Rightarrow>
          (case new_EmailRecord record of
             Inl panic \<Rightarrow> Inl panic
           | Inr emailRecord \<Rightarrow> read_loop csvReader' (records @ [emailRecord])))"
  by pat_completeness auto
termination
proof (relation "measure (\<lambda>(csvReader, records). length (input csvReader))", goal_cases)
  case 1
  show ?case by simp
next
  case (2 csvReader records x1 csvReader' rec err emailRecord)
  then have "csv_Read csvReader = ((rec, None), csvReader')" by simp
  from csv_Read_consumes [OF this] show ?case by simp
qed

text \<open>\<open>os_Open\<close> is the environment's answer to \<^verbatim>\<open>os.Open\<close>: an error, or the file.\<close>

definition ReadCSV :: "(string \<Rightarrow> go_error + csv_input) \<Rightarrow> string \<Rightarrow> error + EmailRecord list" where
  "ReadCSV os_Open filename =
     (case os_Open filename of
        Inl readErr \<Rightarrow> Inl (InputOpenError readErr)
      | Inr csvFile \<Rightarrow>
          (let csvReader = csv_NewReader csvFile in
           case csv_Read csvReader of
             ((header, Some headerLineErr), csvReader') \<Rightarrow> Inl (HeaderReadError headerLineErr)
           | ((header, None), csvReader') \<Rightarrow> read_loop csvReader' []))"

section \<open>ConvertToJSON and WriteJSON\<close>

text \<open>
  \<^verbatim>\<open>ConvertToJSON\<close> takes any value; \<open>json_MarshalIndent\<close> is the library function at the type
  of \<open>data\<close>.
\<close>

definition ConvertToJSON :: "('a \<Rightarrow> go_error + string) \<Rightarrow> 'a \<Rightarrow> error + string" where
  "ConvertToJSON json_MarshalIndent data =
     (case json_MarshalIndent data of
        Inl jsonMarshalErr \<Rightarrow> Inl (SerializationError jsonMarshalErr)
      | Inr jsonData \<Rightarrow> Inr jsonData)"

definition WriteJSON :: "write_fault \<Rightarrow> files \<Rightarrow> string \<Rightarrow> string \<Rightarrow> files \<times> error option" where
  "WriteJSON fault fs filename data =
     (case os_WriteFile fault fs filename data of
        (fs', Some fileWriteErr) \<Rightarrow> (fs', Some (WriteError fileWriteErr))
      | (fs', None) \<Rightarrow> (fs', None))"

section \<open>SplitAndWriteJSON\<close>

text \<open>\<^verbatim>\<open>maxSize := maxSizeKB * bytesPerKB\<close>, a product of two Go ints.\<close>

definition maxSize_of :: "go_int \<Rightarrow> int" where
  "maxSize_of maxSizeKB = sint (maxSizeKB * 1024)"

text \<open>
  \<open>marshal\<close> stands for \<^verbatim>\<open>json.MarshalIndent(\<dots>, "", "  ")\<close> on a slice of records: the
  bytes, or the library's error.

  The inner loop (lines 109 to 118) grows \<open>endIdx\<close> while the records from \<open>startIdx\<close> up
  to and including \<open>endIdx\<close> marshal to at most \<open>maxSize\<close> bytes. It returns the final
  \<open>endIdx\<close>, or the error of the marshalling that failed.
\<close>

type_synonym marshal = "EmailRecord list \<Rightarrow> go_error + string"

function fit_loop :: "marshal \<Rightarrow> EmailRecord list \<Rightarrow> int \<Rightarrow> nat \<Rightarrow> nat \<Rightarrow> error + nat" where
  "fit_loop marshal records maxSize startIdx endIdx =
     (if endIdx < length records then
        (case marshal (subslice records startIdx (endIdx + 1)) of
           Inl err \<Rightarrow> Inl (SerializationError err)
         | Inr chunkData \<Rightarrow>
             if int (length chunkData) > maxSize then Inr endIdx
             else fit_loop marshal records maxSize startIdx (endIdx + 1))
      else Inr endIdx)"
  by pat_completeness auto
termination
  by (relation "measure (\<lambda>(marshal, records, maxSize, startIdx, endIdx). length records - endIdx)")
     auto

lemma fit_loop_bounds:
  "fit_loop marshal records maxSize startIdx endIdx = Inr e \<Longrightarrow>
     endIdx \<le> e \<and> (endIdx \<le> length records \<longrightarrow> e \<le> length records)"
proof (induction marshal records maxSize startIdx endIdx rule: fit_loop.induct)
  case (1 marshal records maxSize startIdx endIdx)
  show ?case
  proof (cases "endIdx < length records")
    case False
    with "1.prems" show ?thesis by simp
  next
    case True
    show ?thesis
    proof (cases "marshal (subslice records startIdx (endIdx + 1))")
      case (Inl err)
      with True "1.prems" show ?thesis by simp
    next
      case (Inr chunkData)
      show ?thesis
      proof (cases "int (length chunkData) > maxSize")
        case big: True
        with True Inr "1.prems" show ?thesis by simp
      next
        case small: False
        with True Inr "1.prems"
        have "fit_loop marshal records maxSize startIdx (endIdx + 1) = Inr e" by simp
        from "1.IH" [OF True Inr small this] True show ?thesis by simp
      qed
    qed
  qed
qed

text \<open>
  The outer loop (lines 103 to 137), from the state \<open>(chunkNum, startIdx)\<close> and the files
  written so far. The slice expressions stay in range: \<open>startIdx \<le> endIdx\<close> and
  \<open>endIdx + 1 \<le> length records\<close> hold wherever the loop slices. It terminates because
  \<open>endIdx\<close>, the next \<open>startIdx\<close>, is beyond \<open>startIdx\<close>.
\<close>

function chunk_loop ::
  "marshal \<Rightarrow> write_fault \<Rightarrow> string \<Rightarrow> EmailRecord list \<Rightarrow> int \<Rightarrow> files \<Rightarrow> nat \<Rightarrow> nat
     \<Rightarrow> files \<times> error option" where
  "chunk_loop marshal fault fileNamePrefix records maxSize fs chunkNum startIdx =
     (if startIdx < length records then
        (case fit_loop marshal records maxSize startIdx startIdx of
           Inl err \<Rightarrow> (fs, Some err)
         | Inr fitted \<Rightarrow>
             (let endIdx = (if startIdx = fitted then fitted + 1 else fitted) in
              case marshal (subslice records startIdx endIdx) of
                Inl err \<Rightarrow> (fs, Some (FinalSerializationError err))
              | Inr chunkData \<Rightarrow>
                  (let chunkName = chunk_name fileNamePrefix chunkNum in
                   case WriteJSON fault fs chunkName chunkData of
                     (fs', Some fileWriteErr) \<Rightarrow> (fs', Some (ChunkWriteError chunkName fileWriteErr))
                   | (fs', None) \<Rightarrow>
                       chunk_loop marshal fault fileNamePrefix records maxSize fs'
                         (chunkNum + 1) endIdx)))
      else (fs, None))"
  by pat_completeness auto
termination
proof (relation "measure (\<lambda>(marshal, fault, fileNamePrefix, records, maxSize, fs, chunkNum, startIdx).
                   length records - startIdx)", goal_cases)
  case 1
  show ?case by simp
next
  case (2 marshal fault fileNamePrefix records maxSize fs chunkNum startIdx fitted endIdx)
  from fit_loop_bounds [OF 2(2)] 2(1) have "startIdx \<le> fitted" "fitted \<le> length records"
    by simp_all
  with 2(1) 2(3) show ?case by (auto split: if_splits)
qed

definition SplitAndWriteJSON ::
  "marshal \<Rightarrow> write_fault \<Rightarrow> files \<Rightarrow> string \<Rightarrow> EmailRecord list \<Rightarrow> go_int \<Rightarrow> files \<times> error option" where
  "SplitAndWriteJSON marshal fault fs fileNamePrefix records maxSizeKB =
     chunk_loop marshal fault fileNamePrefix records (maxSize_of maxSizeKB) fs 1 0"

section \<open>SplitData\<close>

text \<open>\<^verbatim>\<open>contains\<close> (lines 174 to 182); its first parameter is called \<^verbatim>\<open>slice\<close> in the source.\<close>

fun contains :: "nat list \<Rightarrow> nat \<Rightarrow> bool" where
  "contains [] i = False"
| "contains (v # slice') i = (if v = i then True else contains slice' i)"

text \<open>
  The loop over the records (lines 160 to 168), from index \<open>i\<close> on, with the three
  subsets built so far.
\<close>

type_synonym subsets = "EmailRecord list option \<times> EmailRecord list option \<times> EmailRecord list option"

fun range_loop :: "nat list \<Rightarrow> nat list \<Rightarrow> nat \<Rightarrow> EmailRecord list \<Rightarrow> subsets \<Rightarrow> subsets" where
  "range_loop trainIndices testIndices i [] (trainSet, testSet, learnSet) = (trainSet, testSet, learnSet)"
| "range_loop trainIndices testIndices i (record # rest) (trainSet, testSet, learnSet) =
     (if contains trainIndices i then
        range_loop trainIndices testIndices (i + 1) rest (go_append trainSet record, testSet, learnSet)
      else if contains testIndices i then
        range_loop trainIndices testIndices (i + 1) rest (trainSet, go_append testSet record, learnSet)
      else
        range_loop trainIndices testIndices (i + 1) rest (trainSet, testSet, go_append learnSet record))"

text \<open>
  \<open>prng_Perm n\<close> is what \<^verbatim>\<open>prng.Perm(n)\<close> returns for this run's seed: the theorems ask
  of it what math/rand promises, a permutation of \<open>0, \<dots>, n - 1\<close>. \<open>totalCount\<close> is
  the length itself, which fits a Go int for every slice that exists. The sum
  \<^verbatim>\<open>trainCount+testCount\<close> is formed twice, in Go int arithmetic both times.
\<close>

definition SplitData :: "(nat \<Rightarrow> nat list) \<Rightarrow> EmailRecord list \<Rightarrow> go_int \<Rightarrow> go_int \<Rightarrow> error + subsets" where
  "SplitData prng_Perm records trainCount testCount =
     (let totalCount = int (length records) in
      if sint (trainCount + testCount) \<ge> totalCount then
        Inl (InsufficientDataError (sint trainCount) (sint testCount) totalCount)
      else
        (let randomIndices = prng_Perm (length records) in
         case go_slice_expr randomIndices 0 (sint trainCount) of
           Inl panic \<Rightarrow> Inl panic
         | Inr trainIndices \<Rightarrow>
         (case go_slice_expr randomIndices (sint trainCount) (sint (trainCount + testCount)) of
           Inl panic \<Rightarrow> Inl panic
         | Inr testIndices \<Rightarrow>
         (case go_make (sint trainCount) of
           Inl panic \<Rightarrow> Inl panic
         | Inr trainSet \<Rightarrow>
         (case go_make (sint testCount) of
           Inl panic \<Rightarrow> Inl panic
         | Inr testSet \<Rightarrow>
         (case go_make (sint (word_of_int totalCount - trainCount - testCount)) of
           Inl panic \<Rightarrow> Inl panic
         | Inr learnSet \<Rightarrow>
             Inr (range_loop trainIndices testIndices 0 records (trainSet, testSet, learnSet))))))))"

section \<open>main\<close>

text \<open>Steps 3 and 4 (lines 207 to 216): both slices are declared nil and appended to.\<close>

definition trainEmailSet_of :: "EmailRecord list option \<Rightarrow> TrainingEmailRecord list option" where
  "trainEmailSet_of trainSet =
     fold (\<lambda>record trainEmailSet.
             go_append trainEmailSet
               \<lparr>TrainingEmailRecord.ID = EmailRecord.ID record,
                TrainingEmailRecord.Email = EmailRecord.Email record\<rparr>)
       (elems trainSet) None"

definition trainResultSet_of :: "EmailRecord list option \<Rightarrow> TrainingResultRecord list option" where
  "trainResultSet_of trainSet =
     fold (\<lambda>record trainResultSet.
             go_append trainResultSet
               \<lparr>TrainingResultRecord.ID = EmailRecord.ID record,
                TrainingResultRecord.Result = EmailRecord.Result record\<rparr>)
       (elems trainSet) None"

text \<open>
  The body of \<^verbatim>\<open>main\<close>, with the values of \<^verbatim>\<open>trainCount\<close>, \<^verbatim>\<open>testCount\<close> and
  \<^verbatim>\<open>maxFileSizeKB\<close> as parameters; \<^verbatim>\<open>main\<close> itself sets them to 30, 20 and 5000. Each
  \<^verbatim>\<open>log.Fatalf\<close> ends the run with the error of the step that failed. The summary
  printed at the end is left out.
\<close>

definition run_main ::
  "(string \<Rightarrow> go_error + csv_input) \<Rightarrow> (nat \<Rightarrow> nat list) \<Rightarrow> (string \<Rightarrow> string) \<Rightarrow> write_fault \<Rightarrow>
   files \<Rightarrow> go_int \<Rightarrow> go_int \<Rightarrow> go_int \<Rightarrow> files \<times> error option" where
  "run_main os_Open prng_Perm enc fault fs trainCount testCount maxFileSizeKB =
     (case ReadCSV os_Open ''Phishing_Email.csv'' of
        Inl readCSVErr \<Rightarrow> (fs, Some readCSVErr)
      | Inr records \<Rightarrow>
     (case SplitData prng_Perm records trainCount testCount of
        Inl splitErr \<Rightarrow> (fs, Some splitErr)
      | Inr (trainSet, testSet, learnSet) \<Rightarrow>
     (let trainEmailSet = trainEmailSet_of trainSet;
          trainResultSet = trainResultSet_of trainSet in
      case ConvertToJSON (MarshalIndent_slice (json_TrainingEmailRecord enc)) trainEmailSet of
        Inl convertTrainEmailJSONErr \<Rightarrow> (fs, Some convertTrainEmailJSONErr)
      | Inr trainEmailJsonData \<Rightarrow>
     (case ConvertToJSON (MarshalIndent_slice (json_TrainingResultRecord enc)) trainResultSet of
        Inl convertTrainResultJSONErr \<Rightarrow> (fs, Some convertTrainResultJSONErr)
      | Inr trainResultJsonData \<Rightarrow>
     (case WriteJSON fault fs ''Phishing_Training_Data.json'' trainEmailJsonData of
        (fs1, Some trainEmailJSONWriteErr) \<Rightarrow> (fs1, Some trainEmailJSONWriteErr)
      | (fs1, None) \<Rightarrow>
     (case WriteJSON fault fs1 ''Phishing_Training_Result.json'' trainResultJsonData of
        (fs2, Some trainResultJSONWriteErr) \<Rightarrow> (fs2, Some trainResultJSONWriteErr)
      | (fs2, None) \<Rightarrow>
     (case ConvertToJSON (MarshalIndent_slice (json_EmailRecord enc)) testSet of
        Inl convertTestJsonErr \<Rightarrow> (fs2, Some convertTestJsonErr)
      | Inr testJSONData \<Rightarrow>
     (case WriteJSON fault fs2 ''Phishing_Testing_Data.json'' testJSONData of
        (fs3, Some testJSONWriteErr) \<Rightarrow> (fs3, Some testJSONWriteErr)
      | (fs3, None) \<Rightarrow>
          SplitAndWriteJSON (MarshalIndent_EmailRecords enc) fault fs3 ''Phishing_Learning_Data''
            (elems learnSet) maxFileSizeKB))))))))"

definition main ::
  "(string \<Rightarrow> go_error + csv_input) \<Rightarrow> (nat \<Rightarrow> nat list) \<Rightarrow> (string \<Rightarrow> string) \<Rightarrow> write_fault \<Rightarrow>
   files \<Rightarrow> files \<times> error option" where
  "main os_Open prng_Perm enc fault fs = run_main os_Open prng_Perm enc fault fs 30 20 5000"

section \<open>Properties of SplitAndWriteJSON\<close>

subsection \<open>The inner loop\<close>

lemma fit_loop_fits:
  "fit_loop marshal records maxSize startIdx endIdx = Inr e \<Longrightarrow> endIdx < e \<Longrightarrow>
     \<exists>d. marshal (subslice records startIdx e) = Inr d \<and> int (length d) \<le> maxSize"
proof (induction marshal records maxSize startIdx endIdx rule: fit_loop.induct)
  case (1 marshal records maxSize startIdx endIdx)
  show ?case
  proof (cases "endIdx < length records")
    case False
    with "1.prems" show ?thesis by simp
  next
    case True
    show ?thesis
    proof (cases "marshal (subslice records startIdx (endIdx + 1))")
      case (Inl err)
      with True "1.prems" show ?thesis by simp
    next
      case (Inr chunkData)
      show ?thesis
      proof (cases "int (length chunkData) > maxSize")
        case big: True
        with True Inr "1.prems" show ?thesis by simp
      next
        case small: False
        with True Inr "1.prems"
        have rec: "fit_loop marshal records maxSize startIdx (endIdx + 1) = Inr e" by simp
        show ?thesis
        proof (cases "endIdx + 1 < e")
          case True
          from "1.IH" [OF \<open>endIdx < length records\<close> Inr small rec True] show ?thesis .
        next
          case False
          with fit_loop_bounds [OF rec] have "e = endIdx + 1" by simp
          with Inr small show ?thesis by simp
        qed
      qed
    qed
  qed
qed

lemma fit_loop_stops:
  "fit_loop marshal records maxSize startIdx endIdx = Inr e \<Longrightarrow> e < length records \<Longrightarrow>
     \<exists>d. marshal (subslice records startIdx (e + 1)) = Inr d \<and> int (length d) > maxSize"
proof (induction marshal records maxSize startIdx endIdx rule: fit_loop.induct)
  case (1 marshal records maxSize startIdx endIdx)
  from "1.prems" fit_loop_bounds [OF "1.prems"(1)] have lt: "endIdx < length records" by simp
  show ?case
  proof (cases "marshal (subslice records startIdx (endIdx + 1))")
    case (Inl err)
    with lt "1.prems" show ?thesis by simp
  next
    case (Inr chunkData)
    show ?thesis
    proof (cases "int (length chunkData) > maxSize")
      case big: True
      with lt Inr "1.prems" show ?thesis by auto
    next
      case small: False
      with lt Inr "1.prems"
      have rec: "fit_loop marshal records maxSize startIdx (endIdx + 1) = Inr e" by simp
      from "1.IH" [OF lt Inr small rec "1.prems"(2)] show ?thesis .
    qed
  qed
qed

lemma fit_loop_total:
  "(\<And>c. \<exists>d. marshal c = Inr d) \<Longrightarrow> \<exists>e. fit_loop marshal records maxSize startIdx endIdx = Inr e"
proof (induction marshal records maxSize startIdx endIdx rule: fit_loop.induct)
  case (1 marshal records maxSize startIdx endIdx)
  show ?case
  proof (cases "endIdx < length records")
    case False
    then show ?thesis by simp
  next
    case True
    from "1.prems" obtain d where d: "marshal (subslice records startIdx (endIdx + 1)) = Inr d"
      by blast
    show ?thesis
    proof (cases "int (length d) > maxSize")
      case big: True
      with True d show ?thesis by simp
    next
      case small: False
      from "1.IH" [OF True d small "1.prems"] True d small show ?thesis by simp
    qed
  qed
qed

lemma fit_loop_grow:
  "endIdx < length records \<Longrightarrow> e = endIdx + 1 \<Longrightarrow>
   marshal (subslice records startIdx e) = Inr d \<Longrightarrow> int (length d) \<le> maxSize \<Longrightarrow>
   fit_loop marshal records maxSize startIdx endIdx = fit_loop marshal records maxSize startIdx e"
  by (subst fit_loop.simps) simp

lemma fit_loop_break:
  "endIdx < length records \<Longrightarrow> e = endIdx + 1 \<Longrightarrow>
   marshal (subslice records startIdx e) = Inr d \<Longrightarrow> maxSize < int (length d) \<Longrightarrow>
   fit_loop marshal records maxSize startIdx endIdx = Inr endIdx"
  by (subst fit_loop.simps) simp

lemma fit_loop_exhausted:
  "\<not> endIdx < length records \<Longrightarrow> fit_loop marshal records maxSize startIdx endIdx = Inr endIdx"
  by (subst fit_loop.simps) simp

subsection \<open>The outer loop\<close>

text \<open>
  What a run of the outer loop from \<open>startIdx\<close> adds to the files: the marshallings of
  consecutive chunks of the records from \<open>startIdx\<close> on, numbered from \<open>chunkNum\<close>.
\<close>

lemma subslice_concat_drop:
  "s \<le> e \<Longrightarrow> e \<le> length xs \<Longrightarrow> drop s xs = subslice xs s e @ drop e xs"
  unfolding subslice_def
  by (metis append_take_drop_id drop_drop le_add_diff_inverse2)

lemma chunk_loop_spec:
  assumes "chunk_loop marshal fault fileNamePrefix records maxSize fs chunkNum startIdx = (fs', r)"
    and "startIdx \<le> length records"
  shows "\<exists>chunks new.
           fs' = fs @ new \<and>
           map fst new = map (chunk_name fileNamePrefix) [chunkNum..<chunkNum + length chunks] \<and>
           map marshal chunks = map (\<lambda>f. Inr (snd f)) new \<and>
           (\<forall>c\<in>set chunks. c \<noteq> [] \<and>
              (\<forall>d. marshal c = Inr d \<longrightarrow>
                 int (length d) \<le> maxSize \<or> length c = 1 \<and> int (length d) > maxSize)) \<and>
           (\<exists>rest. drop startIdx records = concat chunks @ rest) \<and>
           (r = None \<longrightarrow> concat chunks = drop startIdx records)"
  using assms
proof (induction marshal fault fileNamePrefix records maxSize fs chunkNum startIdx
    arbitrary: fs' r rule: chunk_loop.induct)
  case (1 marshal fault fileNamePrefix records maxSize fs chunkNum startIdx)
  let ?P = "\<lambda>chunks new. fs' = fs @ new \<and>
           map fst new = map (chunk_name fileNamePrefix) [chunkNum..<chunkNum + length chunks] \<and>
           map marshal chunks = map (\<lambda>f. Inr (snd f)) new \<and>
           (\<forall>c\<in>set chunks. c \<noteq> [] \<and>
              (\<forall>d. marshal c = Inr d \<longrightarrow>
                 int (length d) \<le> maxSize \<or> length c = 1 \<and> int (length d) > maxSize)) \<and>
           (\<exists>rest. drop startIdx records = concat chunks @ rest) \<and>
           (r = None \<longrightarrow> concat chunks = drop startIdx records)"
  show ?case
  proof (cases "startIdx < length records")
    case False
    with "1.prems" have "fs' = fs" "r = None" "drop startIdx records = []" by simp_all
    then have "?P [] []" by simp
    then show ?thesis by blast
  next
    case lt: True
    show ?thesis
    proof (cases "fit_loop marshal records maxSize startIdx startIdx")
      case (Inl err)
      with lt "1.prems" have "fs' = fs" "r = Some err" by simp_all
      then have "?P [] []" by simp
      then show ?thesis by blast
    next
      case (Inr fitted)
      define endIdx where "endIdx = (if startIdx = fitted then fitted + 1 else fitted)"
      from fit_loop_bounds [OF Inr] lt have fb: "startIdx \<le> fitted" "fitted \<le> length records"
        by simp_all
      with lt have eb: "startIdx < endIdx" "endIdx \<le> length records"
        by (auto simp: endIdx_def)
      show ?thesis
      proof (cases "marshal (subslice records startIdx endIdx)")
        case mInl: (Inl err)
        with lt Inr "1.prems" have "fs' = fs" "r = Some (FinalSerializationError err)"
          by (simp_all add: endIdx_def Let_def)
        then have "?P [] []" by simp
        then show ?thesis by blast
      next
        case mInr: (Inr chunkData)
        define chunkName where "chunkName = chunk_name fileNamePrefix chunkNum"
        show ?thesis
        proof (cases "fault fs chunkName chunkData")
          case (Some e)
          with lt Inr mInr "1.prems" have "fs' = fs" "r = Some (ChunkWriteError chunkName (WriteError e))"
            by (simp_all add: endIdx_def [symmetric] chunkName_def [symmetric] Let_def
                WriteJSON_def os_WriteFile_def)
          then have "?P [] []" by simp
          then show ?thesis by blast
        next
          case None
          then have w: "WriteJSON fault fs chunkName chunkData = (fs @ [(chunkName, chunkData)], None)"
            by (simp add: WriteJSON_def os_WriteFile_def)
          with lt Inr mInr "1.prems"(1)
          have rec: "chunk_loop marshal fault fileNamePrefix records maxSize
                       (fs @ [(chunkName, chunkData)]) (chunkNum + 1) endIdx = (fs', r)"
            by (simp add: endIdx_def [symmetric] chunkName_def [symmetric] Let_def)
          from "1.IH" [OF lt Inr endIdx_def mInr chunkName_def w [symmetric] refl rec eb(2)]
          obtain chunks new where IH:
            "fs' = (fs @ [(chunkName, chunkData)]) @ new"
            "map fst new = map (chunk_name fileNamePrefix) [chunkNum + 1..<chunkNum + 1 + length chunks]"
            "map marshal chunks = map (\<lambda>f. Inr (snd f)) new"
            "\<forall>c\<in>set chunks. c \<noteq> [] \<and>
              (\<forall>d. marshal c = Inr d \<longrightarrow>
                 int (length d) \<le> maxSize \<or> length c = 1 \<and> int (length d) > maxSize)"
            "\<exists>rest. drop endIdx records = concat chunks @ rest"
            "r = None \<longrightarrow> concat chunks = drop endIdx records"
            by blast
          let ?c = "subslice records startIdx endIdx"
          have len_c: "length ?c = endIdx - startIdx"
            using eb by (simp add: subslice_def)
          have c_ne: "?c \<noteq> []" using len_c eb by auto
          have c_fit: "int (length chunkData) \<le> maxSize \<or> length ?c = 1 \<and> int (length chunkData) > maxSize"
          proof (cases "startIdx = fitted")
            case True
            then have e1: "endIdx = startIdx + 1" by (simp add: endIdx_def)
            from fit_loop_stops [OF Inr] True lt
            obtain d where "marshal (subslice records startIdx (startIdx + 1)) = Inr d" "int (length d) > maxSize"
              by auto
            with mInr e1 len_c show ?thesis by simp
          next
            case False
            then have e2: "endIdx = fitted" by (simp add: endIdx_def)
            from False fb have "startIdx < fitted" by simp
            from fit_loop_fits [OF Inr this] mInr e2 show ?thesis by simp
          qed
          have split: "drop startIdx records = ?c @ drop endIdx records"
            using eb by (intro subslice_concat_drop) simp_all
          have n1: "fs' = fs @ ((chunkName, chunkData) # new)"
            using IH(1) by simp
          have n2: "map fst ((chunkName, chunkData) # new) =
                      map (chunk_name fileNamePrefix) [chunkNum..<chunkNum + length (?c # chunks)]"
          proof -
            have "[chunkNum..<chunkNum + length (?c # chunks)] =
                    chunkNum # [chunkNum + 1..<chunkNum + 1 + length chunks]"
              by (subst upt_rec) simp
            with IH(2) show ?thesis by (simp only: list.map fst_conv chunkName_def)
          qed
          have n3: "map marshal (?c # chunks) = map (\<lambda>f. Inr (snd f)) ((chunkName, chunkData) # new)"
            using IH(3) mInr by simp
          have n4: "\<forall>c\<in>set (?c # chunks). c \<noteq> [] \<and>
              (\<forall>d. marshal c = Inr d \<longrightarrow>
                 int (length d) \<le> maxSize \<or> length c = 1 \<and> int (length d) > maxSize)"
            using IH(4) c_ne c_fit mInr by simp
          have n5: "\<exists>rest. drop startIdx records = concat (?c # chunks) @ rest"
            using IH(5) split by auto
          have n6: "r = None \<longrightarrow> concat (?c # chunks) = drop startIdx records"
            using IH(6) split by simp
          from n1 n2 n3 n4 n5 n6 have "?P (?c # chunks) ((chunkName, chunkData) # new)"
            by blast
          then show ?thesis by blast
        qed
      qed
    qed
  qed
qed

lemma chunk_loop_succeeds:
  assumes "\<And>c. \<exists>d. marshal c = Inr d" and "\<And>fs n d. fault fs n d = None"
  shows "snd (chunk_loop marshal fault fileNamePrefix records maxSize fs chunkNum startIdx) = None"
  using assms
proof (induction marshal fault fileNamePrefix records maxSize fs chunkNum startIdx
    rule: chunk_loop.induct)
  case (1 marshal fault fileNamePrefix records maxSize fs chunkNum startIdx)
  show ?case
  proof (cases "startIdx < length records")
    case False
    then show ?thesis by simp
  next
    case lt: True
    from fit_loop_total [of marshal records maxSize startIdx startIdx] "1.prems"(1)
    obtain fitted where f: "fit_loop marshal records maxSize startIdx startIdx = Inr fitted"
      by blast
    define endIdx where "endIdx = (if startIdx = fitted then fitted + 1 else fitted)"
    from "1.prems"(1) obtain chunkData where m: "marshal (subslice records startIdx endIdx) = Inr chunkData"
      by blast
    define chunkName where "chunkName = chunk_name fileNamePrefix chunkNum"
    have w: "WriteJSON fault fs chunkName chunkData = (fs @ [(chunkName, chunkData)], None)"
      using "1.prems"(2) by (simp add: WriteJSON_def os_WriteFile_def)
    have "chunk_loop marshal fault fileNamePrefix records maxSize fs chunkNum startIdx =
            chunk_loop marshal fault fileNamePrefix records maxSize
              (fs @ [(chunkName, chunkData)]) (chunkNum + 1) endIdx"
      using lt f m w
      by (subst chunk_loop.simps)
         (simp add: endIdx_def [symmetric] chunkName_def [symmetric] Let_def)
    with "1.IH" [OF lt f endIdx_def m chunkName_def w [symmetric] refl "1.prems"]
    show ?thesis by simp
  qed
qed

lemma chunk_loop_write:
  "startIdx < length records \<Longrightarrow>
   fit_loop marshal records maxSize startIdx startIdx = Inr fitted \<Longrightarrow>
   endIdx = (if startIdx = fitted then fitted + 1 else fitted) \<Longrightarrow>
   marshal (subslice records startIdx endIdx) = Inr chunkData \<Longrightarrow>
   fault fs (chunk_name fileNamePrefix chunkNum) chunkData = None \<Longrightarrow>
   n = chunkNum + 1 \<Longrightarrow>
   chunk_loop marshal fault fileNamePrefix records maxSize fs chunkNum startIdx =
     chunk_loop marshal fault fileNamePrefix records maxSize
       (fs @ [(chunk_name fileNamePrefix chunkNum, chunkData)]) n endIdx"
  by (subst chunk_loop.simps) (simp add: Let_def WriteJSON_def os_WriteFile_def)

lemma chunk_loop_done:
  "\<not> startIdx < length records \<Longrightarrow>
   chunk_loop marshal fault fileNamePrefix records maxSize fs chunkNum startIdx = (fs, None)"
  by (subst chunk_loop.simps) simp

lemma chunks_files_all2:
  assumes m: "map marshal chunks = map (\<lambda>f. Inr (snd f)) new"
    and p: "\<forall>c\<in>set chunks. \<forall>d. marshal c = Inr d \<longrightarrow> P c d"
  shows "list_all2 (\<lambda>chunk file. marshal chunk = Inr (snd file) \<and> P chunk (snd file)) chunks new"
proof -
  from m have len: "length chunks = length new"
    by (metis length_map)
  have "marshal (chunks ! i) = Inr (snd (new ! i))" if "i < length chunks" for i
    using arg_cong [OF m, of "\<lambda>xs. xs ! i"] that len by simp
  with p len show ?thesis
    by (simp add: list_all2_conv_all_nth)
qed

lemma SplitAndWriteJSON_appends:
  "SplitAndWriteJSON marshal fault fs fileNamePrefix records maxSizeKB = (fs', r) \<Longrightarrow>
     \<exists>new. fs' = fs @ new"
proof -
  assume "SplitAndWriteJSON marshal fault fs fileNamePrefix records maxSizeKB = (fs', r)"
  then have "chunk_loop marshal fault fileNamePrefix records (maxSize_of maxSizeKB) fs 1 0 = (fs', r)"
    by (simp add: SplitAndWriteJSON_def)
  from chunk_loop_spec [OF this] show ?thesis by auto
qed

subsection \<open>The limit and the file names\<close>

lemma maxSize_of_exact:
  "- (2 ^ 53) \<le> sint maxSizeKB \<Longrightarrow> sint maxSizeKB < 2 ^ 53 \<Longrightarrow>
     maxSize_of maxSizeKB = sint maxSizeKB * 1024"
  unfolding maxSize_of_def sint_word_mult
  by (simp add: signed_take_bit_int_eq_self)

lemma maxSize_of_le:
  "- (2 ^ 53) \<le> sint maxSizeKB \<Longrightarrow> maxSize_of maxSizeKB \<le> sint maxSizeKB * 1024"
  unfolding maxSize_of_def sint_word_mult
  by (simp add: signed_take_bit_int_less_eq_self_iff)

lemma digit_inj:
  "a < 10 \<Longrightarrow> b < 10 \<Longrightarrow> ''0123456789'' ! a = ''0123456789'' ! b \<Longrightarrow> a = (b::nat)"
proof -
  assume "a < 10" "b < 10" and eq: "''0123456789'' ! a = ''0123456789'' ! b"
  have d: "distinct ''0123456789''" by simp
  have "length ''0123456789'' = 10" by simp
  with \<open>a < 10\<close> \<open>b < 10\<close> d eq show "a = b"
    by (metis nth_eq_iff_index_eq)
qed

lemma decimal_nonempty: "decimal n \<noteq> []"
  by (subst decimal.simps) simp

lemma decimal_inj: "decimal n = decimal m \<Longrightarrow> n = m"
proof (induction n arbitrary: m rule: decimal.induct)
  case (1 n)
  have un: "decimal n = (if n < 10 then [''0123456789'' ! n]
      else decimal (n div 10) @ [''0123456789'' ! (n mod 10)])"
    by (subst decimal.simps) (rule refl)
  have um: "decimal m = (if m < 10 then [''0123456789'' ! m]
      else decimal (m div 10) @ [''0123456789'' ! (m mod 10)])"
    by (subst decimal.simps) (rule refl)
  show ?case
  proof (cases "n < 10")
    case n: True
    show ?thesis
    proof (cases "m < 10")
      case True
      with n un um "1.prems" have "''0123456789'' ! n = ''0123456789'' ! m" by simp
      with n True show ?thesis by (rule digit_inj)
    next
      case False
      with n un um "1.prems" have "[''0123456789'' ! n] = decimal (m div 10) @ [''0123456789'' ! (m mod 10)]"
        by simp
      then have "decimal (m div 10) = []" by simp
      with decimal_nonempty show ?thesis by blast
    qed
  next
    case n: False
    show ?thesis
    proof (cases "m < 10")
      case True
      with n un um "1.prems" have "decimal (n div 10) @ [''0123456789'' ! (n mod 10)] = [''0123456789'' ! m]"
        by simp
      then have "decimal (n div 10) = []" by simp
      with decimal_nonempty show ?thesis by blast
    next
      case False
      with n un um "1.prems"
      have "decimal (n div 10) @ [''0123456789'' ! (n mod 10)] =
            decimal (m div 10) @ [''0123456789'' ! (m mod 10)]" by simp
      then have a: "decimal (n div 10) = decimal (m div 10)"
        and b: "''0123456789'' ! (n mod 10) = ''0123456789'' ! (m mod 10)" by simp_all
      from "1.IH" [OF n a] have "n div 10 = m div 10" .
      moreover from b have "n mod 10 = m mod 10" by (intro digit_inj) simp_all
      ultimately show ?thesis by (metis div_mult_mod_eq)
    qed
  qed
qed

lemma chunk_name_inj: "chunk_name p n = chunk_name p m \<Longrightarrow> n = m"
  by (auto simp: chunk_name_def simp del: decimal.simps dest: decimal_inj)

lemma chunk_names_distinct: "distinct (map (chunk_name p) [a..<b])"
  by (simp add: distinct_map inj_on_def) (blast dest: chunk_name_inj)

lemma below_five: "s < 5 \<Longrightarrow> s = 0 \<or> s = 1 \<or> s = 2 \<or> s = 3 \<or> s = (4::nat)"
  by (simp add: numeral_eq_Suc less_Suc_eq)

subsection \<open>The claims about the chunked write\<close>

text \<open>
  Claim C1. Whatever the records and \<open>maxSizeKB\<close>, the files the chunked write adds are
  the marshallings of consecutive chunks of the input, and each file is at most
  \<open>maxSize\<close> bytes long, unless its chunk is one record whose marshalling alone is longer:
  that record is written whole, in a file of its own. \<open>maxSize\<close> is the limit the code
  computes, \<open>maxSizeKB * 1024\<close> as a Go int; for every \<open>maxSizeKB\<close> from \<open>- 2^53\<close> upwards
  (all sizes that are not negative among them) the same holds of the exact product.
\<close>

theorem SplitAndWriteJSON_size_limit:
  assumes "SplitAndWriteJSON marshal fault fs fileNamePrefix records maxSizeKB = (fs', r)"
  shows "\<exists>chunks new.
           fs' = fs @ new \<and> (\<exists>rest. records = concat chunks @ rest) \<and>
           (r = None \<longrightarrow> concat chunks = records) \<and>
           list_all2 (\<lambda>chunk file. marshal chunk = Inr (snd file) \<and>
              (int (length (snd file)) \<le> maxSize_of maxSizeKB \<or>
               length chunk = 1 \<and> maxSize_of maxSizeKB < int (length (snd file)))) chunks new \<and>
           (- (2 ^ 53) \<le> sint maxSizeKB \<longrightarrow>
              list_all2 (\<lambda>chunk file.
                 int (length (snd file)) \<le> sint maxSizeKB * 1024 \<or>
                 length chunk = 1 \<and> sint maxSizeKB * 1024 < int (length (snd file))) chunks new)"
proof -
  from assms have "chunk_loop marshal fault fileNamePrefix records (maxSize_of maxSizeKB) fs 1 0 = (fs', r)"
    by (simp add: SplitAndWriteJSON_def)
  from chunk_loop_spec [OF this] obtain chunks new where
    a: "fs' = fs @ new"
    and b: "map marshal chunks = map (\<lambda>f. Inr (snd f)) new"
    and c: "\<forall>c\<in>set chunks. c \<noteq> [] \<and>
              (\<forall>d. marshal c = Inr d \<longrightarrow>
                 int (length d) \<le> maxSize_of maxSizeKB \<or>
                 length c = 1 \<and> int (length d) > maxSize_of maxSizeKB)"
    and d: "\<exists>rest. records = concat chunks @ rest"
    and e: "r = None \<longrightarrow> concat chunks = records"
    by auto
  have l1: "list_all2 (\<lambda>chunk file. marshal chunk = Inr (snd file) \<and>
              (int (length (snd file)) \<le> maxSize_of maxSizeKB \<or>
               length chunk = 1 \<and> maxSize_of maxSizeKB < int (length (snd file)))) chunks new"
    using b c by (intro chunks_files_all2) simp_all
  have l2: "list_all2 (\<lambda>chunk file.
                 int (length (snd file)) \<le> sint maxSizeKB * 1024 \<or>
                 length chunk = 1 \<and> sint maxSizeKB * 1024 < int (length (snd file))) chunks new"
    if "- (2 ^ 53) \<le> sint maxSizeKB"
  proof -
    from maxSize_of_le [OF that] have le: "maxSize_of maxSizeKB \<le> sint maxSizeKB * 1024" .
    show ?thesis
      by (rule list_all2_mono [OF l1]) (use le in linarith)
  qed
  from a d e l1 l2 show ?thesis by blast
qed

theorem SplitAndWriteJSON_size_limit_witness:
  "\<exists>chunks new.
     SplitAndWriteJSON (MarshalIndent_EmailRecords json_quote) (\<lambda>fs name data. None) []
       ''Phishing_Learning_Data''
       [\<lparr>ID = ''1'', Email = ''a@x'', Result = True\<rparr>,
        \<lparr>ID = ''2'', Email = ''b@x'', Result = False\<rparr>,
        \<lparr>ID = ''3'', Email = replicate 1100 (CHR ''c''), Result = False\<rparr>] 1 = (new, None) \<and>
     concat chunks =
       [\<lparr>ID = ''1'', Email = ''a@x'', Result = True\<rparr>,
        \<lparr>ID = ''2'', Email = ''b@x'', Result = False\<rparr>,
        \<lparr>ID = ''3'', Email = replicate 1100 (CHR ''c''), Result = False\<rparr>] \<and>
     list_all2 (\<lambda>chunk file.
        MarshalIndent_EmailRecords json_quote chunk = Inr (snd file) \<and>
        (int (length (snd file)) \<le> 1024 \<or> length chunk = 1 \<and> 1024 < int (length (snd file))))
       chunks new"
proof -
  let ?recs = "[\<lparr>ID = ''1'', Email = ''a@x'', Result = True\<rparr>,
        \<lparr>ID = ''2'', Email = ''b@x'', Result = False\<rparr>,
        \<lparr>ID = ''3'', Email = replicate 1100 (CHR ''c''), Result = False\<rparr>]"
  let ?run = "SplitAndWriteJSON (MarshalIndent_EmailRecords json_quote) (\<lambda>fs name data. None) []
       ''Phishing_Learning_Data'' ?recs 1"
  have ok: "snd ?run = None"
    by (simp add: SplitAndWriteJSON_def maxSize_of_def MarshalIndent_EmailRecords_def
        json_slice_def json_EmailRecord_def json_quote_def json_bool_def newline_def subslice_def
        WriteJSON_def os_WriteFile_def)
  then have run: "?run = (fst ?run, None)"
    by (metis prod.collapse)
  have lim: "maxSize_of 1 = 1024" by (simp add: maxSize_of_def)
  from SplitAndWriteJSON_size_limit [OF run] obtain chunks new where
    a: "fst ?run = [] @ new"
    and c: "None = (None :: error option) \<longrightarrow> concat chunks = ?recs"
    and l: "list_all2 (\<lambda>chunk file.
        MarshalIndent_EmailRecords json_quote chunk = Inr (snd file) \<and>
        (int (length (snd file)) \<le> maxSize_of 1 \<or>
         length chunk = 1 \<and> maxSize_of 1 < int (length (snd file)))) chunks new"
    by blast
  from run a have "?run = (new, None)" by simp
  moreover from c have "concat chunks = ?recs" by simp
  moreover note l [unfolded lim]
  ultimately show ?thesis by blast
qed

text \<open>
  Claim C2. The files the chunked write adds are named \<open>prefix_1.json\<close>, \<open>prefix_2.json\<close>,
  \<dots> in the order written, with no number left out and no name used twice. Each holds
  the marshalling of one chunk, the chunks in this order make up a prefix of the input,
  and when the call returns no error they make up the whole input, every record once
  and in its place. The call returns no error when no marshalling and no write fails.
\<close>

theorem SplitAndWriteJSON_numbering_and_coverage:
  assumes "SplitAndWriteJSON marshal fault fs fileNamePrefix records maxSizeKB = (fs', r)"
  shows "\<exists>chunks new.
           fs' = fs @ new \<and>
           map fst new = map (chunk_name fileNamePrefix) [1..<length new + 1] \<and>
           distinct (map fst new) \<and>
           map marshal chunks = map (\<lambda>file. Inr (snd file)) new \<and>
           (\<exists>rest. records = concat chunks @ rest) \<and>
           (r = None \<longrightarrow> concat chunks = records) \<and>
           ((\<forall>c. \<exists>d. marshal c = Inr d) \<and> (\<forall>fs name data. fault fs name data = None) \<longrightarrow> r = None)"
proof -
  from assms have run: "chunk_loop marshal fault fileNamePrefix records (maxSize_of maxSizeKB) fs 1 0 = (fs', r)"
    by (simp add: SplitAndWriteJSON_def)
  from chunk_loop_spec [OF run] obtain chunks new where
    a: "fs' = fs @ new"
    and n: "map fst new = map (chunk_name fileNamePrefix) [1..<1 + length chunks]"
    and b: "map marshal chunks = map (\<lambda>f. Inr (snd f)) new"
    and d: "\<exists>rest. records = concat chunks @ rest"
    and e: "r = None \<longrightarrow> concat chunks = records"
    by auto
  from b have len: "length chunks = length new" by (metis length_map)
  from n len have n': "map fst new = map (chunk_name fileNamePrefix) [1..<length new + 1]"
    by simp
  from n' have dist: "distinct (map fst new)"
    by (simp only: chunk_names_distinct)
  have tot: "r = None"
    if "(\<forall>c. \<exists>d. marshal c = Inr d) \<and> (\<forall>fs name data. fault fs name data = None)"
  proof -
    from that have "snd (chunk_loop marshal fault fileNamePrefix records (maxSize_of maxSizeKB) fs 1 0) = None"
      by (intro chunk_loop_succeeds) blast+
    with run show ?thesis by simp
  qed
  from a n' dist b d e tot show ?thesis by blast
qed

theorem SplitAndWriteJSON_numbering_and_coverage_witness:
  "\<exists>chunks d1 d2.
     SplitAndWriteJSON (MarshalIndent_EmailRecords json_quote) (\<lambda>fs name data. None) []
       ''Phishing_Learning_Data''
       [\<lparr>ID = ''1'', Email = ''a@x'', Result = True\<rparr>,
        \<lparr>ID = ''2'', Email = ''b@x'', Result = False\<rparr>,
        \<lparr>ID = ''3'', Email = replicate 1100 (CHR ''c''), Result = False\<rparr>] 1 =
       ([(''Phishing_Learning_Data_1.json'', d1), (''Phishing_Learning_Data_2.json'', d2)], None) \<and>
     map (MarshalIndent_EmailRecords json_quote) chunks = [Inr d1, Inr d2] \<and>
     concat chunks =
       [\<lparr>ID = ''1'', Email = ''a@x'', Result = True\<rparr>,
        \<lparr>ID = ''2'', Email = ''b@x'', Result = False\<rparr>,
        \<lparr>ID = ''3'', Email = replicate 1100 (CHR ''c''), Result = False\<rparr>]"
proof -
  let ?recs = "[\<lparr>ID = ''1'', Email = ''a@x'', Result = True\<rparr>,
        \<lparr>ID = ''2'', Email = ''b@x'', Result = False\<rparr>,
        \<lparr>ID = ''3'', Email = replicate 1100 (CHR ''c''), Result = False\<rparr>]"
  let ?run = "SplitAndWriteJSON (MarshalIndent_EmailRecords json_quote) (\<lambda>fs name data. None) []
       ''Phishing_Learning_Data'' ?recs 1"
  have ok: "snd ?run = None" and two: "length (fst ?run) = 2"
    by (simp_all add: SplitAndWriteJSON_def maxSize_of_def MarshalIndent_EmailRecords_def
        json_slice_def json_EmailRecord_def json_quote_def json_bool_def newline_def subslice_def
        WriteJSON_def os_WriteFile_def)
  from ok have run: "?run = (fst ?run, None)"
    by (metis prod.collapse)
  from SplitAndWriteJSON_numbering_and_coverage [OF run] obtain chunks new where
    a: "fst ?run = [] @ new"
    and n: "map fst new = map (chunk_name ''Phishing_Learning_Data'') [1..<length new + 1]"
    and b: "map (MarshalIndent_EmailRecords json_quote) chunks = map (\<lambda>file. Inr (snd file)) new"
    and c: "None = (None :: error option) \<longrightarrow> concat chunks = ?recs"
    by blast
  from a two have "length new = 2" by simp
  then obtain f1 f2 where new: "new = [f1, f2]"
    by (auto simp: length_Suc_conv numeral_2_eq_2)
  have up: "[1..<length new + 1] = [1, 2]"
    unfolding \<open>length new = 2\<close> by (simp add: upt_rec)
  from n new up have names: "fst f1 = ''Phishing_Learning_Data_1.json''" "fst f2 = ''Phishing_Learning_Data_2.json''"
    by (simp_all add: chunk_name_def decimal.simps)
  then have "new = [(''Phishing_Learning_Data_1.json'', snd f1), (''Phishing_Learning_Data_2.json'', snd f2)]"
    using new by (metis prod.collapse)
  with run a b c new show ?thesis
    by (intro exI [of _ chunks] exI [of _ "snd f1"] exI [of _ "snd f2"]) simp
qed

text \<open>
  Claim C8. Five records, and a limit under which every one or two consecutive records
  fit and no three do: the chunked write adds exactly three files, holding the first two
  records, the next two and the last one.
\<close>

theorem SplitAndWriteJSON_two_per_chunk:
  assumes len: "length records = 5"
    and fits: "\<And>s e. s < e \<Longrightarrow> e \<le> 5 \<Longrightarrow> e - s \<le> 2 \<Longrightarrow>
                 \<exists>d. marshal (subslice records s e) = Inr d \<and> int (length d) \<le> maxSize_of maxSizeKB"
    and over: "\<And>s. s + 3 \<le> 5 \<Longrightarrow>
                 \<exists>d. marshal (subslice records s (s + 3)) = Inr d \<and> maxSize_of maxSizeKB < int (length d)"
    and nofault: "\<And>fs name data. fault fs name data = None"
  shows "\<exists>d1 d2 d3.
           SplitAndWriteJSON marshal fault fs fileNamePrefix records maxSizeKB =
             (fs @ [(chunk_name fileNamePrefix 1, d1), (chunk_name fileNamePrefix 2, d2),
                    (chunk_name fileNamePrefix 3, d3)], None) \<and>
           marshal (take 2 records) = Inr d1 \<and>
           marshal (take 2 (drop 2 records)) = Inr d2 \<and>
           marshal (drop 4 records) = Inr d3 \<and>
           length (take 2 records) = 2 \<and> length (take 2 (drop 2 records)) = 2 \<and>
           length (drop 4 records) = 1"
proof -
  let ?M = "maxSize_of maxSizeKB"
  let ?fit = "fit_loop marshal records ?M"
  let ?loop = "chunk_loop marshal fault fileNamePrefix records ?M"
  obtain a1 where a1: "marshal (subslice records 0 1) = Inr a1" "int (length a1) \<le> ?M"
    using fits [of 0 1] by auto
  obtain d1 where d1: "marshal (subslice records 0 2) = Inr d1" "int (length d1) \<le> ?M"
    using fits [of 0 2] by auto
  obtain o1 where o1: "marshal (subslice records 0 3) = Inr o1" "?M < int (length o1)"
    using over [of 0] by auto
  obtain a2 where a2: "marshal (subslice records 2 3) = Inr a2" "int (length a2) \<le> ?M"
    using fits [of 2 3] by auto
  obtain d2 where d2: "marshal (subslice records 2 4) = Inr d2" "int (length d2) \<le> ?M"
    using fits [of 2 4] by auto
  obtain o2 where o2: "marshal (subslice records 2 5) = Inr o2" "?M < int (length o2)"
    using over [of 2] by auto
  obtain d3 where d3: "marshal (subslice records 4 5) = Inr d3" "int (length d3) \<le> ?M"
    using fits [of 4 5] by auto
  have f1: "?fit 0 0 = Inr 2"
  proof -
    have "?fit 0 0 = ?fit 0 1" by (rule fit_loop_grow [where marshal = marshal and d = a1, OF _ _ a1]) (simp_all add: len)
    also have "\<dots> = ?fit 0 2" by (rule fit_loop_grow [where marshal = marshal and d = d1, OF _ _ d1]) (simp_all add: len)
    also have "\<dots> = Inr 2" by (rule fit_loop_break [where marshal = marshal and d = o1, OF _ _ o1]) (simp_all add: len)
    finally show ?thesis .
  qed
  have f2: "?fit 2 2 = Inr 4"
  proof -
    have "?fit 2 2 = ?fit 2 3" by (rule fit_loop_grow [where marshal = marshal and d = a2, OF _ _ a2]) (simp_all add: len)
    also have "\<dots> = ?fit 2 4" by (rule fit_loop_grow [where marshal = marshal and d = d2, OF _ _ d2]) (simp_all add: len)
    also have "\<dots> = Inr 4" by (rule fit_loop_break [where marshal = marshal and d = o2, OF _ _ o2]) (simp_all add: len)
    finally show ?thesis .
  qed
  have f3: "?fit 4 4 = Inr 5"
  proof -
    have "?fit 4 4 = ?fit 4 5" by (rule fit_loop_grow [where marshal = marshal and d = d3, OF _ _ d3]) (simp_all add: len)
    also have "\<dots> = Inr 5" using len by (intro fit_loop_exhausted) simp
    finally show ?thesis .
  qed
  let ?n = "chunk_name fileNamePrefix"
  have "?loop fs 1 0 = ?loop (fs @ [(?n 1, d1)]) 2 2"
    by (rule chunk_loop_write [where marshal = marshal and chunkData = d1, OF _ f1 _ d1(1) nofault]) (simp_all add: len)
  also have "\<dots> = ?loop ((fs @ [(?n 1, d1)]) @ [(?n 2, d2)]) 3 4"
    by (rule chunk_loop_write [where marshal = marshal and chunkData = d2, OF _ f2 _ d2(1) nofault]) (simp_all add: len)
  also have "\<dots> = ?loop (((fs @ [(?n 1, d1)]) @ [(?n 2, d2)]) @ [(?n 3, d3)]) 4 5"
    by (rule chunk_loop_write [where marshal = marshal and chunkData = d3, OF _ f3 _ d3(1) nofault]) (simp_all add: len)
  also have "\<dots> = (((fs @ [(?n 1, d1)]) @ [(?n 2, d2)]) @ [(?n 3, d3)], None)"
    using len by (intro chunk_loop_done) simp
  finally have run: "SplitAndWriteJSON marshal fault fs fileNamePrefix records maxSizeKB =
             (fs @ [(?n 1, d1), (?n 2, d2), (?n 3, d3)], None)"
    by (simp add: SplitAndWriteJSON_def)
  have s1: "subslice records 0 2 = take 2 records" and s2: "subslice records 2 4 = take 2 (drop 2 records)"
    and s3: "subslice records 4 5 = drop 4 records"
    using len by (simp_all add: subslice_def)
  from run d1(1) d2(1) d3(1) s1 s2 s3 len show ?thesis
    by (intro exI [of _ d1] exI [of _ d2] exI [of _ d3]) simp
qed

theorem SplitAndWriteJSON_two_per_chunk_witness:
  "\<exists>d1 d2 d3.
     SplitAndWriteJSON (MarshalIndent_EmailRecords json_quote) (\<lambda>fs name data. None) []
       ''Phishing_Learning_Data''
       [\<lparr>ID = ''1'', Email = replicate 300 (CHR ''a''), Result = True\<rparr>,
        \<lparr>ID = ''2'', Email = replicate 300 (CHR ''b''), Result = False\<rparr>,
        \<lparr>ID = ''3'', Email = replicate 300 (CHR ''c''), Result = False\<rparr>,
        \<lparr>ID = ''4'', Email = replicate 300 (CHR ''d''), Result = True\<rparr>,
        \<lparr>ID = ''5'', Email = replicate 300 (CHR ''e''), Result = False\<rparr>] 1 =
       ([(''Phishing_Learning_Data_1.json'', d1), (''Phishing_Learning_Data_2.json'', d2),
         (''Phishing_Learning_Data_3.json'', d3)], None) \<and>
     MarshalIndent_EmailRecords json_quote
       [\<lparr>ID = ''1'', Email = replicate 300 (CHR ''a''), Result = True\<rparr>,
        \<lparr>ID = ''2'', Email = replicate 300 (CHR ''b''), Result = False\<rparr>] = Inr d1 \<and>
     MarshalIndent_EmailRecords json_quote
       [\<lparr>ID = ''3'', Email = replicate 300 (CHR ''c''), Result = False\<rparr>,
        \<lparr>ID = ''4'', Email = replicate 300 (CHR ''d''), Result = True\<rparr>] = Inr d2 \<and>
     MarshalIndent_EmailRecords json_quote
       [\<lparr>ID = ''5'', Email = replicate 300 (CHR ''e''), Result = False\<rparr>] = Inr d3"
proof -
  let ?recs = "[\<lparr>ID = ''1'', Email = replicate 300 (CHR ''a''), Result = True\<rparr>,
        \<lparr>ID = ''2'', Email = replicate 300 (CHR ''b''), Result = False\<rparr>,
        \<lparr>ID = ''3'', Email = replicate 300 (CHR ''c''), Result = False\<rparr>,
        \<lparr>ID = ''4'', Email = replicate 300 (CHR ''d''), Result = True\<rparr>,
        \<lparr>ID = ''5'', Email = replicate 300 (CHR ''e''), Result = False\<rparr>]"
  let ?M = "MarshalIndent_EmailRecords json_quote"
  note defs = maxSize_of_def MarshalIndent_EmailRecords_def json_slice_def json_EmailRecord_def
    json_quote_def json_bool_def newline_def subslice_def
  have one: "\<exists>d. ?M (subslice ?recs s (s + 1)) = Inr d \<and> int (length d) \<le> maxSize_of 1"
    if "s < 5" for s
    using below_five [OF that] by (elim disjE) (simp_all add: defs)
  have two: "\<exists>d. ?M (subslice ?recs s (s + 2)) = Inr d \<and> int (length d) \<le> maxSize_of 1"
    if "s < 5" for s
    using below_five [OF that] by (elim disjE) (simp_all add: defs)
  have fits: "\<exists>d. ?M (subslice ?recs s e) = Inr d \<and> int (length d) \<le> maxSize_of 1"
    if "s < e" "e \<le> 5" "e - s \<le> 2" for s e
  proof -
    from that have "s < 5" and "e = s + 1 \<or> e = s + 2" by linarith+
    with one two show ?thesis by blast
  qed
  have over: "\<exists>d. ?M (subslice ?recs s (s + 3)) = Inr d \<and> maxSize_of 1 < int (length d)"
    if "s + 3 \<le> 5" for s
  proof -
    from that have "s = 0 \<or> s = 1 \<or> s = 2" by linarith
    then show ?thesis
      by (elim disjE) (simp_all add: defs)
  qed
  from SplitAndWriteJSON_two_per_chunk [of ?recs ?M 1 "\<lambda>fs name data. None" "[]" "''Phishing_Learning_Data''",
      OF _ fits over]
  show ?thesis
    by (simp add: chunk_name_def decimal.simps)
qed

text \<open>
  Claim C9. For no records the chunked write adds no file and returns no error. For
  any records, every file it adds holds the marshalling of a chunk that is not empty.
\<close>

theorem SplitAndWriteJSON_no_empty_chunk:
  "SplitAndWriteJSON marshal fault fs fileNamePrefix [] maxSizeKB = (fs, None) \<and>
   (\<forall>fs' r. SplitAndWriteJSON marshal fault fs fileNamePrefix records maxSizeKB = (fs', r) \<longrightarrow>
      (\<exists>chunks new. fs' = fs @ new \<and>
         list_all2 (\<lambda>chunk file. chunk \<noteq> [] \<and> marshal chunk = Inr (snd file)) chunks new \<and>
         (\<exists>rest. records = concat chunks @ rest)))"
proof (intro conjI allI impI)
  show "SplitAndWriteJSON marshal fault fs fileNamePrefix [] maxSizeKB = (fs, None)"
    by (simp add: SplitAndWriteJSON_def)
next
  fix fs' r
  assume "SplitAndWriteJSON marshal fault fs fileNamePrefix records maxSizeKB = (fs', r)"
  then have "chunk_loop marshal fault fileNamePrefix records (maxSize_of maxSizeKB) fs 1 0 = (fs', r)"
    by (simp add: SplitAndWriteJSON_def)
  from chunk_loop_spec [OF this] obtain chunks new where
    a: "fs' = fs @ new"
    and b: "map marshal chunks = map (\<lambda>f. Inr (snd f)) new"
    and c: "\<forall>c\<in>set chunks. c \<noteq> []"
    and d: "\<exists>rest. records = concat chunks @ rest"
    by auto
  from c have "\<forall>c\<in>set chunks. \<forall>d. marshal c = Inr d \<longrightarrow> c \<noteq> []" by simp
  from chunks_files_all2 [OF b this]
  have "list_all2 (\<lambda>chunk file. chunk \<noteq> [] \<and> marshal chunk = Inr (snd file)) chunks new"
    by (rule list_all2_mono) simp
  with a d show "\<exists>chunks new. fs' = fs @ new \<and>
         list_all2 (\<lambda>chunk file. chunk \<noteq> [] \<and> marshal chunk = Inr (snd file)) chunks new \<and>
         (\<exists>rest. records = concat chunks @ rest)"
    by blast
qed

theorem SplitAndWriteJSON_no_empty_chunk_witness:
  "SplitAndWriteJSON (MarshalIndent_EmailRecords json_quote) (\<lambda>fs name data. None) []
       ''Phishing_Learning_Data'' [] 5000 = ([], None) \<and>
   (\<exists>chunks new.
      SplitAndWriteJSON (MarshalIndent_EmailRecords json_quote) (\<lambda>fs name data. None) []
        ''Phishing_Learning_Data''
        [\<lparr>ID = ''1'', Email = ''a@x'', Result = True\<rparr>,
         \<lparr>ID = ''2'', Email = ''b@x'', Result = False\<rparr>] 5000 = (new, None) \<and>
      list_all2 (\<lambda>chunk file. chunk \<noteq> [] \<and> MarshalIndent_EmailRecords json_quote chunk = Inr (snd file))
        chunks new \<and>
      length new = 1)"
proof -
  let ?recs = "[\<lparr>ID = ''1'', Email = ''a@x'', Result = True\<rparr>,
         \<lparr>ID = ''2'', Email = ''b@x'', Result = False\<rparr>]"
  let ?run = "SplitAndWriteJSON (MarshalIndent_EmailRecords json_quote) (\<lambda>fs name data. None) []
        ''Phishing_Learning_Data'' ?recs 5000"
  note inst = SplitAndWriteJSON_no_empty_chunk
    [of "MarshalIndent_EmailRecords json_quote" "\<lambda>fs name data. None" "[]"
        "''Phishing_Learning_Data''" 5000 ?recs]
  have ok: "snd ?run = None" and one: "length (fst ?run) = 1"
    by (simp_all add: SplitAndWriteJSON_def maxSize_of_def MarshalIndent_EmailRecords_def
        json_slice_def json_EmailRecord_def json_quote_def json_bool_def newline_def subslice_def
        WriteJSON_def os_WriteFile_def)
  from ok have run: "?run = (fst ?run, None)"
    by (metis prod.collapse)
  from inst run obtain chunks new where
    a: "fst ?run = [] @ new"
    and l: "list_all2 (\<lambda>chunk file. chunk \<noteq> [] \<and> MarshalIndent_EmailRecords json_quote chunk = Inr (snd file))
        chunks new"
    by blast
  from run a one have "?run = (new, None)" "length new = 1" by simp_all
  with l inst show ?thesis by blast
qed

section \<open>Properties of SplitData\<close>

lemma contains_iff: "contains xs i \<longleftrightarrow> i \<in> set xs"
  by (induction xs) auto

lemma range_loop_nths:
  "range_loop trainIndices testIndices i rest (Some a, Some b, Some c) =
     (Some (a @ nths rest {j. j + i \<in> set trainIndices}),
      Some (b @ nths rest {j. j + i \<notin> set trainIndices \<and> j + i \<in> set testIndices}),
      Some (c @ nths rest {j. j + i \<notin> set trainIndices \<and> j + i \<notin> set testIndices}))"
proof (induction rest arbitrary: i a b c)
  case Nil
  show ?case by simp
next
  case (Cons r rest)
  show ?case
    by (simp add: Cons.IH contains_iff nths_Cons)
qed

lemma nths_filter_upt: "nths xs A = map ((!) xs) (filter (\<lambda>i. i \<in> A) [0..<length xs])"
proof (induction xs rule: rev_induct)
  case Nil
  show ?case by simp
next
  case (snoc x xs)
  have "map ((!) (xs @ [x])) (filter (\<lambda>i. i \<in> A) [0..<length xs]) =
        map ((!) xs) (filter (\<lambda>i. i \<in> A) [0..<length xs])"
    by (rule map_cong) (auto simp: nth_append)
  with snoc show ?case
    by (simp add: nths_append)
qed

lemma nths_cong_below:
  "(\<And>i. i < length xs \<Longrightarrow> i \<in> A \<longleftrightarrow> i \<in> B) \<Longrightarrow> nths xs A = nths xs B"
  unfolding nths_filter_upt
  by (rule arg_cong [where f = "map ((!) xs)"], rule filter_cong) auto

lemma length_nths_below: "A \<subseteq> {0..<length xs} \<Longrightarrow> length (nths xs A) = card A"
proof -
  assume "A \<subseteq> {0..<length xs}"
  then have "{i. i < length xs \<and> i \<in> A} = A" by auto
  then show ?thesis by (simp add: length_nths)
qed

lemma sint_add_exact:
  fixes a b :: go_int
  shows "- (2 ^ 63) \<le> sint a + sint b \<Longrightarrow> sint a + sint b < 2 ^ 63 \<Longrightarrow> sint (a + b) = sint a + sint b"
  unfolding sint_word_add by (simp add: signed_take_bit_int_eq_self)

lemma sint_remaining:
  fixes a b :: go_int
  shows "0 \<le> sint a \<Longrightarrow> 0 \<le> sint b \<Longrightarrow> sint a + sint b \<le> n \<Longrightarrow> n < 2 ^ 63 \<Longrightarrow>
         sint (word_of_int n - a - b) = n - sint a - sint b"
proof -
  assume h: "0 \<le> sint a" "0 \<le> sint b" "sint a + sint b \<le> n" "n < 2 ^ 63"
  then have n: "sint (word_of_int n :: go_int) = n"
    by (simp add: sint_sbintrunc' signed_take_bit_int_eq_self)
  from h have "sint (word_of_int n - a) = n - sint a"
    unfolding sint_word_diff n by (simp add: signed_take_bit_int_eq_self)
  with h show ?thesis
    unfolding sint_word_diff [of "word_of_int n - a" b] by (simp add: signed_take_bit_int_eq_self)
qed

lemma perm_length: "distinct p \<Longrightarrow> set p = {0..<n} \<Longrightarrow> length p = n"
  by (metis card_atLeastLessThan diff_zero distinct_card)

lemma SplitData_success:
  fixes trainCount testCount :: go_int
  assumes tr: "0 \<le> sint trainCount" and te: "0 \<le> sint testCount"
    and lt: "sint trainCount + sint testCount < int (length records)"
    and len: "length records < 2 ^ 63"
    and plen: "length (prng_Perm (length records)) = length records"
  shows "SplitData prng_Perm records trainCount testCount =
     Inr (Some (nths records (set (take (nat (sint trainCount)) (prng_Perm (length records))))),
          Some (nths records
             {i. i \<notin> set (take (nat (sint trainCount)) (prng_Perm (length records))) \<and>
                 i \<in> set (take (nat (sint testCount))
                          (drop (nat (sint trainCount)) (prng_Perm (length records))))}),
          Some (nths records
             {i. i \<notin> set (take (nat (sint trainCount)) (prng_Perm (length records))) \<and>
                 i \<notin> set (take (nat (sint testCount))
                          (drop (nat (sint trainCount)) (prng_Perm (length records))))}))"
proof -
  let ?p = "prng_Perm (length records)"
  from len have len': "int (length records) < 2 ^ 63" 
    by (metis of_nat_less_iff of_nat_numeral of_nat_power)
  from tr te lt len' have sum: "sint (trainCount + testCount) = sint trainCount + sint testCount"
    by (intro sint_add_exact) simp_all
  have s1: "go_slice_expr ?p 0 (sint trainCount) = Inr (take (nat (sint trainCount)) ?p)"
    using tr te lt plen by (simp add: go_slice_expr_def)
  have "nat (sint trainCount + sint testCount) - nat (sint trainCount) = nat (sint testCount)"
    using tr te by simp
  then have s2: "go_slice_expr ?p (sint trainCount) (sint trainCount + sint testCount) =
               Inr (take (nat (sint testCount)) (drop (nat (sint trainCount)) ?p))"
    using tr te lt plen by (simp add: go_slice_expr_def)
  have m1: "go_make (sint trainCount) = Inr (Some ([] :: EmailRecord list))"
    and m2: "go_make (sint testCount) = Inr (Some ([] :: EmailRecord list))"
    using tr te by (simp_all add: go_make_def)
  have "sint (word_of_int (int (length records)) - trainCount - testCount) =
          int (length records) - sint trainCount - sint testCount"
    using tr te lt len' by (intro sint_remaining) simp_all
  then have m3: "go_make (sint (word_of_int (int (length records)) - trainCount - testCount)) =
               Inr (Some ([] :: EmailRecord list))"
    using lt by (simp add: go_make_def)
  from m3 have m3': "go_make (sint (word_of_nat (length records) - trainCount - testCount)) =
               Inr (Some ([] :: EmailRecord list))"
    by simp
  show ?thesis
    using lt by (simp add: SplitData_def Let_def sum s1 s2 m1 m2 m3' range_loop_nths)
qed

lemma SplitData_index_sets:
  fixes trainCount testCount :: go_int
  assumes tr: "0 \<le> sint trainCount" and te: "0 \<le> sint testCount"
    and lt: "sint trainCount + sint testCount < int (length records)"
    and dist: "distinct p" and ran: "set p = {0..<length records}"
    and A: "A = set (take (nat (sint trainCount)) p)"
    and B: "B = set (take (nat (sint testCount)) (drop (nat (sint trainCount)) p))"
    and C: "C = set (drop (nat (sint trainCount) + nat (sint testCount)) p)"
  shows "A \<inter> B = {}" "A \<inter> C = {}" "B \<inter> C = {}" "A \<union> B \<union> C = {0..<length records}"
    "card A = nat (sint trainCount)" "card B = nat (sint testCount)"
    "card C = length records - nat (sint trainCount) - nat (sint testCount)"
proof -
  let ?a = "nat (sint trainCount)" and ?b = "nat (sint testCount)"
  from dist ran have plen: "length p = length records" by (rule perm_length)
  from tr te lt have le: "?a + ?b < length records" by linarith
  have Bsub: "B \<subseteq> set (drop ?a p)" unfolding B by (rule set_take_subset)
  have Csub: "C \<subseteq> set (drop ?a p)"
    unfolding C by (metis add.commute drop_drop set_drop_subset)
  from set_take_disj_set_drop_if_distinct [OF dist, of ?a ?a] Bsub
  show "A \<inter> B = {}" unfolding A by auto
  from set_take_disj_set_drop_if_distinct [OF dist, of ?a ?a] Csub
  show "A \<inter> C = {}" unfolding A by auto
  have "distinct (drop ?a p)" using dist by simp
  from set_take_disj_set_drop_if_distinct [OF this, of ?b ?b]
  show "B \<inter> C = {}" unfolding B C by (simp add: add.commute)
  have "p = take ?a p @ take ?b (drop ?a p) @ drop (?a + ?b) p"
    by (metis add.commute append_take_drop_id drop_drop)
  then have "set p = A \<union> B \<union> C"
    unfolding A B C by (metis Un_assoc set_append)
  with ran show "A \<union> B \<union> C = {0..<length records}" by simp
  show "card A = ?a"
    unfolding A using dist le plen by (simp add: distinct_card)
  show "card B = ?b"
    unfolding B using dist le plen by (simp add: distinct_card)
  show "card C = length records - ?a - ?b"
    unfolding C using dist le plen by (simp add: distinct_card)
qed

lemma SplitData_no_train:
  assumes "SplitData prng_Perm records 0 testCount = Inr (trainSet, testSet, learnSet)"
  shows "trainSet = Some []"
proof -
  from assms obtain testIndices where
    "range_loop [] testIndices 0 records (Some [], Some [], Some []) = (trainSet, testSet, learnSet)"
    by (auto simp: SplitData_def Let_def go_slice_expr_def go_make_def split: if_splits sum.splits)
  then show ?thesis by (simp add: range_loop_nths)
qed

lemma SplitData_no_test:
  assumes "SplitData prng_Perm records trainCount 0 = Inr (trainSet, testSet, learnSet)"
  shows "testSet = Some []"
proof -
  from assms obtain trainIndices where
    "range_loop trainIndices [] 0 records (Some [], Some [], Some []) = (trainSet, testSet, learnSet)"
    by (auto simp: SplitData_def Let_def go_slice_expr_def go_make_def split: if_splits sum.splits)
  then show ?thesis by (simp add: range_loop_nths)
qed

lemma upt3: "[0..<3] = [0, 1, 2]" and set3: "{0..<3::nat} = {0, 1, 2}"
  by (auto simp: upt_rec)

subsection \<open>The claims about the partition\<close>

text \<open>
  Claim C4. For counts that are not negative and whose sum is below the number of
  records, and a permutation drawn by the generator, SplitData succeeds. Its three
  subsets are the records at three sets of indices that are pairwise disjoint and together
  are all indices \<open>0, \<dots>, length records - 1\<close>; the training subset has exactly \<open>trainCount\<close>
  records and the testing subset exactly \<open>testCount\<close>.
\<close>

theorem SplitData_partition:
  fixes trainCount testCount :: go_int
  assumes tr: "0 \<le> sint trainCount" and te: "0 \<le> sint testCount"
    and lt: "sint trainCount + sint testCount < int (length records)"
    and len: "length records < 2 ^ 63"
    and dist: "distinct (prng_Perm (length records))"
    and ran: "set (prng_Perm (length records)) = {0..<length records}"
  shows "\<exists>A B C.
           SplitData prng_Perm records trainCount testCount =
             Inr (Some (nths records A), Some (nths records B), Some (nths records C)) \<and>
           A \<inter> B = {} \<and> A \<inter> C = {} \<and> B \<inter> C = {} \<and>
           A \<union> B \<union> C = {0..<length records} \<and>
           length (nths records A) = nat (sint trainCount) \<and>
           length (nths records B) = nat (sint testCount) \<and>
           length (nths records C) = length records - nat (sint trainCount) - nat (sint testCount)"
proof -
  let ?p = "prng_Perm (length records)"
  define A where "A = set (take (nat (sint trainCount)) ?p)"
  define B where "B = set (take (nat (sint testCount)) (drop (nat (sint trainCount)) ?p))"
  define C where "C = set (drop (nat (sint trainCount) + nat (sint testCount)) ?p)"
  note sets = SplitData_index_sets [OF tr te lt dist ran A_def B_def C_def]
  from dist ran have plen: "length ?p = length records" by (rule perm_length)
  have run: "SplitData prng_Perm records trainCount testCount =
     Inr (Some (nths records A), Some (nths records {i. i \<notin> A \<and> i \<in> B}),
          Some (nths records {i. i \<notin> A \<and> i \<notin> B}))"
    unfolding A_def B_def by (rule SplitData_success [where prng_Perm = prng_Perm, OF tr te lt len plen])
  have "nths records {i. i \<notin> A \<and> i \<in> B} = nths records B"
    using sets(1) by (intro nths_cong_below) auto
  moreover have "nths records {i. i \<notin> A \<and> i \<notin> B} = nths records C"
    using sets(2,3,4) by (intro nths_cong_below) auto
  ultimately have run': "SplitData prng_Perm records trainCount testCount =
     Inr (Some (nths records A), Some (nths records B), Some (nths records C))"
    using run by simp
  from sets(4) have sub: "A \<subseteq> {0..<length records}" "B \<subseteq> {0..<length records}"
    "C \<subseteq> {0..<length records}" by auto
  from sub sets(5,6,7) have
    "length (nths records A) = nat (sint trainCount)"
    "length (nths records B) = nat (sint testCount)"
    "length (nths records C) = length records - nat (sint trainCount) - nat (sint testCount)"
    by (simp_all add: length_nths_below)
  with run' sets(1,2,3,4) show ?thesis by blast
qed

theorem SplitData_partition_witness:
  "\<exists>A B C.
     SplitData (\<lambda>n. [2, 0, 1])
       [\<lparr>ID = ''1'', Email = ''a@x'', Result = True\<rparr>,
        \<lparr>ID = ''2'', Email = ''b@x'', Result = False\<rparr>,
        \<lparr>ID = ''3'', Email = ''c@x'', Result = False\<rparr>] 1 1 =
       Inr (Some [\<lparr>ID = ''3'', Email = ''c@x'', Result = False\<rparr>],
            Some [\<lparr>ID = ''1'', Email = ''a@x'', Result = True\<rparr>],
            Some [\<lparr>ID = ''2'', Email = ''b@x'', Result = False\<rparr>]) \<and>
     nths [\<lparr>ID = ''1'', Email = ''a@x'', Result = True\<rparr>,
           \<lparr>ID = ''2'', Email = ''b@x'', Result = False\<rparr>,
           \<lparr>ID = ''3'', Email = ''c@x'', Result = False\<rparr>] A =
       [\<lparr>ID = ''3'', Email = ''c@x'', Result = False\<rparr>] \<and>
     nths [\<lparr>ID = ''1'', Email = ''a@x'', Result = True\<rparr>,
           \<lparr>ID = ''2'', Email = ''b@x'', Result = False\<rparr>,
           \<lparr>ID = ''3'', Email = ''c@x'', Result = False\<rparr>] B =
       [\<lparr>ID = ''1'', Email = ''a@x'', Result = True\<rparr>] \<and>
     nths [\<lparr>ID = ''1'', Email = ''a@x'', Result = True\<rparr>,
           \<lparr>ID = ''2'', Email = ''b@x'', Result = False\<rparr>,
           \<lparr>ID = ''3'', Email = ''c@x'', Result = False\<rparr>] C =
       [\<lparr>ID = ''2'', Email = ''b@x'', Result = False\<rparr>] \<and>
     A \<inter> B = {} \<and> A \<inter> C = {} \<and> B \<inter> C = {} \<and> A \<union> B \<union> C = {0..<3}"
proof -
  let ?recs = "[\<lparr>ID = ''1'', Email = ''a@x'', Result = True\<rparr>,
        \<lparr>ID = ''2'', Email = ''b@x'', Result = False\<rparr>,
        \<lparr>ID = ''3'', Email = ''c@x'', Result = False\<rparr>]"
  have "\<exists>A B C.
           SplitData (\<lambda>n. [2, 0, 1]) ?recs 1 1 =
             Inr (Some (nths ?recs A), Some (nths ?recs B), Some (nths ?recs C)) \<and>
           A \<inter> B = {} \<and> A \<inter> C = {} \<and> B \<inter> C = {} \<and>
           A \<union> B \<union> C = {0..<length ?recs} \<and>
           length (nths ?recs A) = nat (sint (1 :: go_int)) \<and>
           length (nths ?recs B) = nat (sint (1 :: go_int)) \<and>
           length (nths ?recs C) = length ?recs - nat (sint (1 :: go_int)) - nat (sint (1 :: go_int))"
    by (rule SplitData_partition) (auto simp: set3)
  then obtain A B C where
    run: "SplitData (\<lambda>n. [2, 0, 1]) ?recs 1 1 =
             Inr (Some (nths ?recs A), Some (nths ?recs B), Some (nths ?recs C))"
    and sets: "A \<inter> B = {}" "A \<inter> C = {}" "B \<inter> C = {}" "A \<union> B \<union> C = {0..<length ?recs}"
    by blast
  have val: "SplitData (\<lambda>n. [2, 0, 1]) ?recs 1 1 =
       Inr (Some [\<lparr>ID = ''3'', Email = ''c@x'', Result = False\<rparr>],
            Some [\<lparr>ID = ''1'', Email = ''a@x'', Result = True\<rparr>],
            Some [\<lparr>ID = ''2'', Email = ''b@x'', Result = False\<rparr>])"
    by (simp add: SplitData_def go_slice_expr_def go_make_def)
  from run val have
    "nths ?recs A = [\<lparr>ID = ''3'', Email = ''c@x'', Result = False\<rparr>]"
    "nths ?recs B = [\<lparr>ID = ''1'', Email = ''a@x'', Result = True\<rparr>]"
    "nths ?recs C = [\<lparr>ID = ''2'', Email = ''b@x'', Result = False\<rparr>]"
    by simp_all
  moreover have "length ?recs = 3" by simp
  with sets(4) have "A \<union> B \<union> C = {0..<3}" by (simp only:)
  ultimately show ?thesis using val sets(1,2,3) by blast
qed

text \<open>
  The guard of line 147. SplitData returns the insufficient-data error exactly when the
  sum the code forms, a Go int, is at least the number of records, equality included;
  this is the exact sum of the counts whenever that fits 64 bits. When the counts are
  not negative and add up to \<open>total - 1\<close> it succeeds, and the learning subset has one
  record.
\<close>

lemma SplitData_guard:
  fixes trainCount testCount :: go_int
  shows "((\<exists>a b c. SplitData prng_Perm records trainCount testCount = Inl (InsufficientDataError a b c))
            \<longleftrightarrow> int (length records) \<le> sint (trainCount + testCount)) \<and>
         (- (2 ^ 63) \<le> sint trainCount + sint testCount \<and> sint trainCount + sint testCount < 2 ^ 63 \<longrightarrow>
            ((\<exists>a b c. SplitData prng_Perm records trainCount testCount = Inl (InsufficientDataError a b c))
               \<longleftrightarrow> int (length records) \<le> sint trainCount + sint testCount)) \<and>
         (0 \<le> sint trainCount \<and> 0 \<le> sint testCount \<and>
          sint trainCount + sint testCount = int (length records) - 1 \<and>
          length records < 2 ^ 63 \<and>
          distinct (prng_Perm (length records)) \<and>
          set (prng_Perm (length records)) = {0..<length records} \<longrightarrow>
            (\<exists>trainSet testSet learnSet.
               SplitData prng_Perm records trainCount testCount =
                 Inr (Some trainSet, Some testSet, Some learnSet) \<and>
               length learnSet = 1))"
proof -
  have iff: "(\<exists>a b c. SplitData prng_Perm records trainCount testCount = Inl (InsufficientDataError a b c))
            \<longleftrightarrow> int (length records) \<le> sint (trainCount + testCount)"
    by (auto simp: SplitData_def Let_def go_slice_expr_def go_make_def split: sum.splits if_splits)
  have exact: "(\<exists>a b c. SplitData prng_Perm records trainCount testCount = Inl (InsufficientDataError a b c))
               \<longleftrightarrow> int (length records) \<le> sint trainCount + sint testCount"
    if "- (2 ^ 63) \<le> sint trainCount + sint testCount \<and> sint trainCount + sint testCount < 2 ^ 63"
    using iff sint_add_exact [of trainCount testCount] that by simp
  have boundary: "\<exists>trainSet testSet learnSet.
               SplitData prng_Perm records trainCount testCount =
                 Inr (Some trainSet, Some testSet, Some learnSet) \<and>
               length learnSet = 1"
    if h: "0 \<le> sint trainCount \<and> 0 \<le> sint testCount \<and>
          sint trainCount + sint testCount = int (length records) - 1 \<and>
          length records < 2 ^ 63 \<and>
          distinct (prng_Perm (length records)) \<and>
          set (prng_Perm (length records)) = {0..<length records}"
  proof -
    let ?p = "prng_Perm (length records)"
    from h have tr: "0 \<le> sint trainCount" and te: "0 \<le> sint testCount"
      and lt: "sint trainCount + sint testCount < int (length records)"
      and len: "length records < 2 ^ 63" and dist: "distinct ?p"
      and ran: "set ?p = {0..<length records}" by simp_all
    define A where "A = set (take (nat (sint trainCount)) ?p)"
    define B where "B = set (take (nat (sint testCount)) (drop (nat (sint trainCount)) ?p))"
    define C where "C = set (drop (nat (sint trainCount) + nat (sint testCount)) ?p)"
    note sets = SplitData_index_sets [OF tr te lt dist ran A_def B_def C_def]
    from dist ran have plen: "length ?p = length records" by (rule perm_length)
    have run: "SplitData prng_Perm records trainCount testCount =
       Inr (Some (nths records A), Some (nths records {i. i \<notin> A \<and> i \<in> B}),
            Some (nths records {i. i \<notin> A \<and> i \<notin> B}))"
      unfolding A_def B_def by (rule SplitData_success [where prng_Perm = prng_Perm, OF tr te lt len plen])
    have "nths records {i. i \<notin> A \<and> i \<notin> B} = nths records C"
      using sets(2,3,4) by (intro nths_cong_below) auto
    moreover from sets(4) have "C \<subseteq> {0..<length records}" by auto
    then have "length (nths records C) = card C" by (rule length_nths_below)
    moreover from h tr te have "length records - nat (sint trainCount) - nat (sint testCount) = 1"
      by linarith
    ultimately have "length (nths records {i. i \<notin> A \<and> i \<notin> B}) = 1"
      using sets(7) by simp
    with run show ?thesis by blast
  qed
  from iff exact boundary show ?thesis by blast
qed

lemma SplitData_guard_example:
  "SplitData (\<lambda>n. [2, 0, 1])
       [\<lparr>ID = ''1'', Email = ''a@x'', Result = True\<rparr>,
        \<lparr>ID = ''2'', Email = ''b@x'', Result = False\<rparr>,
        \<lparr>ID = ''3'', Email = ''c@x'', Result = False\<rparr>] 1 2 =
     Inl (InsufficientDataError 1 2 3) \<and>
   (\<exists>trainSet testSet learnSet.
      SplitData (\<lambda>n. [2, 0, 1])
        [\<lparr>ID = ''1'', Email = ''a@x'', Result = True\<rparr>,
         \<lparr>ID = ''2'', Email = ''b@x'', Result = False\<rparr>,
         \<lparr>ID = ''3'', Email = ''c@x'', Result = False\<rparr>] 1 1 =
        Inr (Some trainSet, Some testSet, Some learnSet) \<and> length learnSet = 1)"
proof -
  let ?recs = "[\<lparr>ID = ''1'', Email = ''a@x'', Result = True\<rparr>,
        \<lparr>ID = ''2'', Email = ''b@x'', Result = False\<rparr>,
        \<lparr>ID = ''3'', Email = ''c@x'', Result = False\<rparr>]"
  note full = SplitData_guard [of "\<lambda>n. [2, 0, 1]" ?recs 1 2]
  note edge = SplitData_guard [of "\<lambda>n. [2, 0, 1]" ?recs 1 1]
  from full have "\<exists>a b c. SplitData (\<lambda>n. [2, 0, 1]) ?recs 1 2 = Inl (InsufficientDataError a b c)"
    by simp
  then have "SplitData (\<lambda>n. [2, 0, 1]) ?recs 1 2 = Inl (InsufficientDataError 1 2 3)"
    by (auto simp: SplitData_def split: if_splits)
  moreover have "0 \<le> sint (1 :: go_int) \<and> 0 \<le> sint (1 :: go_int) \<and>
      sint (1 :: go_int) + sint (1 :: go_int) = int (length ?recs) - 1 \<and>
      length ?recs < 2 ^ 63 \<and> distinct [2, 0, 1 :: nat] \<and> set [2, 0, 1] = {0..<length ?recs}"
    by (auto simp: set3)
  with edge have "\<exists>trainSet testSet learnSet.
      SplitData (\<lambda>n. [2, 0, 1]) ?recs 1 1 = Inr (Some trainSet, Some testSet, Some learnSet) \<and>
      length learnSet = 1"
    by blast
  ultimately show ?thesis by blast
qed

text \<open>
  Claim C5, at three records with \<open>trainCount = 9223372036854775807\<close> (the largest Go
  int) and \<open>testCount = 1\<close>. Neither count is negative and their sum is far above the
  number of records, so the claim asks for the insufficient-data error. The sum the
  code forms wraps around to \<open>- 2^63\<close>, the guard of line 147 lets it pass, and the slice
  expression of line 153 panics: SplitData returns no error value at all. (Where the
  sum of the counts fits a Go int the claim holds, its boundary case included, as the
  lemma on the guard shows.)
\<close>

theorem SplitData_overflow_unreported:
  "int (length [\<lparr>ID = ''1'', Email = ''a@x'', Result = True\<rparr>,
                \<lparr>ID = ''2'', Email = ''b@x'', Result = False\<rparr>,
                \<lparr>ID = ''3'', Email = ''c@x'', Result = False\<rparr>])
     \<le> sint (9223372036854775807 :: go_int) + sint (1 :: go_int) \<and>
   sint ((9223372036854775807 :: go_int) + 1) = - 9223372036854775808 \<and>
   SplitData (\<lambda>n. [2, 0, 1])
     [\<lparr>ID = ''1'', Email = ''a@x'', Result = True\<rparr>,
      \<lparr>ID = ''2'', Email = ''b@x'', Result = False\<rparr>,
      \<lparr>ID = ''3'', Email = ''c@x'', Result = False\<rparr>] 9223372036854775807 1 =
     Inl Panic_slice_bounds_out_of_range"
  by (simp add: SplitData_def go_slice_expr_def)

text \<open>
  Claim C6. Under the same conditions each subset lists its records by ascending index
  in the input: which indices go where is decided by the permutation (the first
  \<open>trainCount\<close> entries train, the next \<open>testCount\<close> entries test), the order inside a subset
  is the input's.
\<close>

theorem SplitData_original_order:
  fixes trainCount testCount :: go_int
  assumes tr: "0 \<le> sint trainCount" and te: "0 \<le> sint testCount"
    and lt: "sint trainCount + sint testCount < int (length records)"
    and len: "length records < 2 ^ 63"
    and dist: "distinct (prng_Perm (length records))"
    and ran: "set (prng_Perm (length records)) = {0..<length records}"
    and trainIndices: "trainIndices = take (nat (sint trainCount)) (prng_Perm (length records))"
    and testIndices: "testIndices =
           take (nat (sint testCount)) (drop (nat (sint trainCount)) (prng_Perm (length records)))"
  shows "SplitData prng_Perm records trainCount testCount =
           Inr (Some (map ((!) records) (filter (\<lambda>i. i \<in> set trainIndices) [0..<length records])),
                Some (map ((!) records) (filter (\<lambda>i. i \<in> set testIndices) [0..<length records])),
                Some (map ((!) records)
                   (filter (\<lambda>i. i \<notin> set trainIndices \<and> i \<notin> set testIndices) [0..<length records])))"
proof -
  let ?p = "prng_Perm (length records)"
  from dist ran have plen: "length ?p = length records" by (rule perm_length)
  have disj: "set trainIndices \<inter> set testIndices = {}"
    using SplitData_index_sets(1) [OF tr te lt dist ran refl refl refl]
    unfolding trainIndices testIndices .
  have "nths records {i. i \<notin> set trainIndices \<and> i \<in> set testIndices} = nths records (set testIndices)"
    using disj by (intro nths_cong_below) auto
  then show ?thesis
    using SplitData_success [where prng_Perm = prng_Perm, OF tr te lt len plen]
    unfolding trainIndices [symmetric] testIndices [symmetric]
    by (simp add: nths_filter_upt)
qed

theorem SplitData_original_order_witness:
  "SplitData (\<lambda>n. [2, 0, 1])
       [\<lparr>ID = ''1'', Email = ''a@x'', Result = True\<rparr>,
        \<lparr>ID = ''2'', Email = ''b@x'', Result = False\<rparr>,
        \<lparr>ID = ''3'', Email = ''c@x'', Result = False\<rparr>] 2 0 =
       Inr (Some [\<lparr>ID = ''1'', Email = ''a@x'', Result = True\<rparr>,
                  \<lparr>ID = ''3'', Email = ''c@x'', Result = False\<rparr>],
            Some [],
            Some [\<lparr>ID = ''2'', Email = ''b@x'', Result = False\<rparr>])"
proof -
  let ?recs = "[\<lparr>ID = ''1'', Email = ''a@x'', Result = True\<rparr>,
        \<lparr>ID = ''2'', Email = ''b@x'', Result = False\<rparr>,
        \<lparr>ID = ''3'', Email = ''c@x'', Result = False\<rparr>]"
  have "SplitData (\<lambda>n. [2, 0, 1]) ?recs 2 0 =
           Inr (Some (map ((!) ?recs) (filter (\<lambda>i. i \<in> set [2, 0]) [0..<length ?recs])),
                Some (map ((!) ?recs) (filter (\<lambda>i. i \<in> set []) [0..<length ?recs])),
                Some (map ((!) ?recs)
                   (filter (\<lambda>i. i \<notin> set [2, 0] \<and> i \<notin> set []) [0..<length ?recs])))"
    by (rule SplitData_original_order) (auto simp: set3)
  then show ?thesis by (simp add: upt3)
qed

section \<open>Properties of ReadCSV\<close>

lemma new_EmailRecord_three:
  "3 \<le> length record \<Longrightarrow>
     new_EmailRecord record =
       Inr \<lparr>ID = record ! 0, Email = record ! 1, Result = (record ! 2 = ''Phishing Email'')\<rparr>"
  by (auto simp: new_EmailRecord_def index_def)

lemma read_loop_rows:
  assumes "input csvReader = map Inr rows"
    and "FieldsPerRecord csvReader = int k" and "3 \<le> k"
    and "\<forall>row\<in>set rows. length row = k"
  shows "read_loop csvReader records =
           Inr (records @ map (\<lambda>row. \<lparr>ID = row ! 0, Email = row ! 1,
                                      Result = (row ! 2 = ''Phishing Email'')\<rparr>) rows)"
  using assms
proof (induction rows arbitrary: csvReader records)
  case Nil
  then have "csv_Read csvReader = (([], Some io_EOF), csvReader)"
    by (simp add: csv_Read_def)
  then show ?case
    by (subst read_loop.simps) simp
next
  case (Cons row rows)
  let ?next = "csvReader\<lparr>input := map Inr rows\<rparr>"
  from Cons.prems have row: "length row = k" "3 \<le> length row" by simp_all
  with Cons.prems have rd: "csv_Read csvReader = ((row, None), ?next)"
    by (simp add: csv_Read_def)
  have "read_loop csvReader records =
          read_loop ?next (records @ [\<lparr>ID = row ! 0, Email = row ! 1,
                                      Result = (row ! 2 = ''Phishing Email'')\<rparr>])"
    by (subst read_loop.simps) (simp add: rd new_EmailRecord_three [OF row(2)])
  also have "\<dots> = Inr ((records @ [\<lparr>ID = row ! 0, Email = row ! 1,
                                      Result = (row ! 2 = ''Phishing Email'')\<rparr>]) @
                 map (\<lambda>row. \<lparr>ID = row ! 0, Email = row ! 1,
                              Result = (row ! 2 = ''Phishing Email'')\<rparr>) rows)"
    using Cons.prems by (intro Cons.IH) simp_all
  finally show ?case by simp
qed

text \<open>
  Claim C7. For a file whose header has at least three columns and whose rows all have
  as many columns as the header, the loader returns one record for each row, in order:
  the identifier is column 0, the email column 1, and the label is true exactly when
  column 2 is \<^verbatim>\<open>Phishing Email\<close>. No other value of column 2 is an error.
\<close>

theorem ReadCSV_records:
  assumes "os_Open filename = Inr (map Inr (header # rows))"
    and "3 \<le> length header"
    and "\<forall>row\<in>set rows. length row = length header"
  shows "ReadCSV os_Open filename =
           Inr (map (\<lambda>row. \<lparr>ID = row ! 0, Email = row ! 1,
                              Result = (row ! 2 = ''Phishing Email'')\<rparr>) rows)"
proof -
  let ?r = "\<lparr>FieldsPerRecord = int (length header), input = map Inr rows\<rparr>"
  have hd: "csv_Read (csv_NewReader (map Inr (header # rows))) = ((header, None), ?r)"
    by (simp add: csv_Read_def csv_NewReader_def)
  have "read_loop ?r [] =
          Inr ([] @ map (\<lambda>row. \<lparr>ID = row ! 0, Email = row ! 1,
                              Result = (row ! 2 = ''Phishing Email'')\<rparr>) rows)"
    using assms(2,3) by (intro read_loop_rows [where k = "length header"]) simp_all
  with assms(1) hd show ?thesis
    by (simp add: ReadCSV_def)
qed

theorem ReadCSV_records_witness:
  "ReadCSV (\<lambda>name. Inr [Inr [''id'', ''email'', ''label''],
                          Inr [''1'', ''a@x'', ''Phishing Email''],
                          Inr [''2'', ''b@x'', ''Safe Email''],
                          Inr [''3'', ''c@x'', ''phishing email'']]) ''Phishing_Email.csv'' =
     Inr [\<lparr>ID = ''1'', Email = ''a@x'', Result = True\<rparr>,
          \<lparr>ID = ''2'', Email = ''b@x'', Result = False\<rparr>,
          \<lparr>ID = ''3'', Email = ''c@x'', Result = False\<rparr>]"
  using ReadCSV_records [of "\<lambda>name. Inr [Inr [''id'', ''email'', ''label''],
                          Inr [''1'', ''a@x'', ''Phishing Email''],
                          Inr [''2'', ''b@x'', ''Safe Email''],
                          Inr [''3'', ''c@x'', ''phishing email'']]" "''Phishing_Email.csv''"
      "[''id'', ''email'', ''label'']"
      "[[''1'', ''a@x'', ''Phishing Email''], [''2'', ''b@x'', ''Safe Email''],
        [''3'', ''c@x'', ''phishing email'']]"]
  by simp

text \<open>
  The test of line 59 compares the error with \<^verbatim>\<open>csv.ErrFieldCount\<close> by \<^verbatim>\<open>==\<close>. Were
  \<^verbatim>\<open>Read\<close> to return that value itself, the loader would fail with the malformed-record
  error, as line 60 intends:
\<close>

lemma read_loop_sentinel:
  "input csvReader = Inl csv_ErrFieldCount # rest \<Longrightarrow>
     read_loop csvReader records = Inl (MalformedRecordError csv_ErrFieldCount)"
  by (subst read_loop.simps) (simp add: csv_Read_def)

text \<open>
  The reader returns it inside a \<^verbatim>\<open>*csv.ParseError\<close>, which is another value, so for no
  file does the loader return the malformed-record error:
\<close>

lemma csv_Read_never_sentinel:
  "Inl csv_ErrFieldCount \<notin> set (input r) \<Longrightarrow> csv_Read r = ((record, Some err), r') \<Longrightarrow>
     err \<noteq> csv_ErrFieldCount \<and> Inl csv_ErrFieldCount \<notin> set (input r')"
  by (auto simp: csv_Read_def split: list.splits sum.splits if_splits)

lemma csv_Read_keeps:
  "Inl csv_ErrFieldCount \<notin> set (input r) \<Longrightarrow> csv_Read r = ((record, None), r') \<Longrightarrow>
     Inl csv_ErrFieldCount \<notin> set (input r')"
  by (auto simp: csv_Read_def split: list.splits sum.splits if_splits)

lemma read_loop_never_malformed:
  "Inl csv_ErrFieldCount \<notin> set (input csvReader) \<Longrightarrow>
     read_loop csvReader records \<noteq> Inl (MalformedRecordError e)"
proof (induction csvReader records rule: read_loop.induct)
  case (1 csvReader records)
  obtain rec err r' where rd: "csv_Read csvReader = ((rec, err), r')"
    by (metis prod.collapse)
  show ?case
  proof (cases err)
    case (Some recordReadErr)
    with csv_Read_never_sentinel [OF "1.prems"] rd have "recordReadErr \<noteq> csv_ErrFieldCount"
      by blast
    with rd Some show ?thesis
      by (subst read_loop.simps) simp
  next
    case None
    from csv_Read_keeps [OF "1.prems"] rd None
    have keep: "Inl csv_ErrFieldCount \<notin> set (input r')" by blast
    show ?thesis
    proof (cases "new_EmailRecord rec")
      case (Inl panic)
      then have "panic = Panic_index_out_of_range"
        by (auto simp: new_EmailRecord_def index_def split: if_splits sum.splits)
      with rd None Inl show ?thesis
        by (subst read_loop.simps) simp
    next
      case (Inr emailRecord)
      from "1.IH" [OF rd [unfolded None, symmetric] refl refl Inr keep] rd None Inr
      show ?thesis
        by (subst read_loop.simps) simp
    qed
  qed
qed

lemma ReadCSV_never_malformed:
  assumes "\<And>csvFile. os_Open filename = Inr csvFile \<Longrightarrow> Inl csv_ErrFieldCount \<notin> set csvFile"
  shows "ReadCSV os_Open filename \<noteq> Inl (MalformedRecordError e)"
proof (cases "os_Open filename")
  case (Inl readErr)
  then show ?thesis by (simp add: ReadCSV_def)
next
  case (Inr csvFile)
  from assms [OF Inr] have clean: "Inl csv_ErrFieldCount \<notin> set csvFile" .
  obtain header err r' where rd: "csv_Read (csv_NewReader csvFile) = ((header, err), r')"
    by (metis prod.collapse)
  show ?thesis
  proof (cases err)
    case (Some headerLineErr)
    with Inr rd show ?thesis by (simp add: ReadCSV_def)
  next
    case None
    from clean have "Inl csv_ErrFieldCount \<notin> set (input (csv_NewReader csvFile))"
      by (simp add: csv_NewReader_def)
    from csv_Read_keeps [OF this] rd None have "Inl csv_ErrFieldCount \<notin> set (input r')"
      by blast
    from read_loop_never_malformed [OF this] Inr rd None show ?thesis
      by (simp add: ReadCSV_def)
  qed
qed

text \<open>
  Claim C3, at a file whose second data row has two columns instead of three. The
  loader does not fail: it leaves the loop as it does at the end of the input and
  returns the one record read before, without an error. (The end of the input itself
  ends the loop with the records read, as the claim says and as the theorem for C7
  shows.)
\<close>

theorem ReadCSV_short_row_unreported:
  "ReadCSV (\<lambda>name. Inr [Inr [''id'', ''email'', ''label''],
                          Inr [''1'', ''a@x'', ''Phishing Email''],
                          Inr [''2'', ''b@x''],
                          Inr [''3'', ''c@x'', ''Safe Email'']]) ''Phishing_Email.csv'' =
     Inr [\<lparr>ID = ''1'', Email = ''a@x'', Result = True\<rparr>]"
  by (simp add: ReadCSV_def csv_NewReader_def csv_Read_def new_EmailRecord_def index_def)

section \<open>Properties of main\<close>

lemma WriteJSON_ok:
  "WriteJSON fault fs filename data = (fs1, None) \<Longrightarrow> fs1 = fs @ [(filename, data)]"
  by (auto simp: WriteJSON_def os_WriteFile_def split: option.splits)

lemma views_of_empty:
  "elems trainSet = [] \<Longrightarrow> trainEmailSet_of trainSet = None \<and> trainResultSet_of trainSet = None"
  by (simp add: trainEmailSet_of_def trainResultSet_of_def)

lemma ConvertToJSON_nil:
  "ConvertToJSON (MarshalIndent_slice elem) None = Inr ''null''"
  by (simp add: ConvertToJSON_def MarshalIndent_slice_def json_slice_def)

lemma ConvertToJSON_empty:
  "ConvertToJSON (MarshalIndent_slice elem) (Some []) = Inr ''[]''"
  by (simp add: ConvertToJSON_def MarshalIndent_slice_def json_slice_def)

lemma run_main_success:
  assumes "run_main os_Open prng_Perm enc fault fs trainCount testCount maxFileSizeKB = (fs', None)"
  shows "\<exists>records trainSet testSet learnSet trainEmailJsonData trainResultJsonData testJSONData chunks.
           SplitData prng_Perm records trainCount testCount = Inr (trainSet, testSet, learnSet) \<and>
           ConvertToJSON (MarshalIndent_slice (json_TrainingEmailRecord enc)) (trainEmailSet_of trainSet) =
             Inr trainEmailJsonData \<and>
           ConvertToJSON (MarshalIndent_slice (json_TrainingResultRecord enc)) (trainResultSet_of trainSet) =
             Inr trainResultJsonData \<and>
           ConvertToJSON (MarshalIndent_slice (json_EmailRecord enc)) testSet = Inr testJSONData \<and>
           fs' = fs @ [(''Phishing_Training_Data.json'', trainEmailJsonData),
                       (''Phishing_Training_Result.json'', trainResultJsonData),
                       (''Phishing_Testing_Data.json'', testJSONData)] @ chunks"
proof -
  from assms obtain records where
    rd: "ReadCSV os_Open ''Phishing_Email.csv'' = Inr records"
    by (cases "ReadCSV os_Open ''Phishing_Email.csv''") (simp_all add: run_main_def)
  with assms obtain trainSet testSet learnSet where
    sp: "SplitData prng_Perm records trainCount testCount = Inr (trainSet, testSet, learnSet)"
    by (cases "SplitData prng_Perm records trainCount testCount") (auto simp: run_main_def)
  obtain a where a: "ConvertToJSON (MarshalIndent_slice (json_TrainingEmailRecord enc)) (trainEmailSet_of trainSet) = Inr a"
    by (simp add: ConvertToJSON_def MarshalIndent_slice_def)
  obtain b where b: "ConvertToJSON (MarshalIndent_slice (json_TrainingResultRecord enc)) (trainResultSet_of trainSet) = Inr b"
    by (simp add: ConvertToJSON_def MarshalIndent_slice_def)
  obtain c where c: "ConvertToJSON (MarshalIndent_slice (json_EmailRecord enc)) testSet = Inr c"
    by (simp add: ConvertToJSON_def MarshalIndent_slice_def)
  obtain fs1 e1 where w1: "WriteJSON fault fs ''Phishing_Training_Data.json'' a = (fs1, e1)"
    by (metis prod.collapse)
  from assms rd sp a b w1 have e1: "e1 = None"
    by (cases e1) (simp_all add: run_main_def Let_def)
  obtain fs2 e2 where w2: "WriteJSON fault fs1 ''Phishing_Training_Result.json'' b = (fs2, e2)"
    by (metis prod.collapse)
  from assms rd sp a b w1 e1 w2 have e2: "e2 = None"
    by (cases e2) (simp_all add: run_main_def Let_def)
  obtain fs3 e3 where w3: "WriteJSON fault fs2 ''Phishing_Testing_Data.json'' c = (fs3, e3)"
    by (metis prod.collapse)
  from assms rd sp a b c w1 e1 w2 e2 w3 have e3: "e3 = None"
    by (cases e3) (simp_all add: run_main_def Let_def)
  from assms rd sp a b c w1 e1 w2 e2 w3 e3
  have "SplitAndWriteJSON (MarshalIndent_EmailRecords enc) fault fs3 ''Phishing_Learning_Data''
            (elems learnSet) maxFileSizeKB = (fs', None)"
    by (simp add: run_main_def Let_def)
  from SplitAndWriteJSON_appends [OF this] obtain chunks where "fs' = fs3 @ chunks" ..
  moreover from w1 e1 have "fs1 = fs @ [(''Phishing_Training_Data.json'', a)]"
    by (intro WriteJSON_ok) simp
  moreover from w2 e2 have "fs2 = fs1 @ [(''Phishing_Training_Result.json'', b)]"
    by (intro WriteJSON_ok) simp
  moreover from w3 e3 have "fs3 = fs2 @ [(''Phishing_Testing_Data.json'', c)]"
    by (intro WriteJSON_ok) simp
  ultimately have "fs' = fs @ [(''Phishing_Training_Data.json'', a),
                       (''Phishing_Training_Result.json'', b),
                       (''Phishing_Testing_Data.json'', c)] @ chunks"
    by simp
  with sp a b c show ?thesis by blast
qed

text \<open>
  Claim C10. A training subset with no records is projected to two nil slices, which
  marshal to \<^verbatim>\<open>null\<close>; a testing subset with no records comes from \<^verbatim>\<open>make\<close> in SplitData,
  is not nil, and marshals to \<^verbatim>\<open>[]\<close>. So a run with \<open>trainCount = 0\<close> that ends without
  error has written \<^verbatim>\<open>null\<close> to both training files, and one with \<open>testCount = 0\<close> has
  written \<^verbatim>\<open>[]\<close> to the testing file.
\<close>

theorem main_empty_subsets:
  "(elems trainSet = [] \<longrightarrow>
      ConvertToJSON (MarshalIndent_slice (json_TrainingEmailRecord enc)) (trainEmailSet_of trainSet) =
        Inr ''null'' \<and>
      ConvertToJSON (MarshalIndent_slice (json_TrainingResultRecord enc)) (trainResultSet_of trainSet) =
        Inr ''null'') \<and>
   (SplitData prng_Perm records trainCount 0 = Inr (subset1, testSet, subset3) \<longrightarrow>
      ConvertToJSON (MarshalIndent_slice (json_EmailRecord enc)) testSet = Inr ''[]'') \<and>
   (run_main os_Open prng_Perm enc fault fs 0 testCount maxFileSizeKB = (fs', None) \<longrightarrow>
      (\<exists>testJSONData chunks.
         fs' = fs @ [(''Phishing_Training_Data.json'', ''null''),
                     (''Phishing_Training_Result.json'', ''null''),
                     (''Phishing_Testing_Data.json'', testJSONData)] @ chunks)) \<and>
   (run_main os_Open prng_Perm enc fault fs trainCount 0 maxFileSizeKB = (fs'', None) \<longrightarrow>
      (\<exists>trainEmailJsonData trainResultJsonData chunks.
         fs'' = fs @ [(''Phishing_Training_Data.json'', trainEmailJsonData),
                      (''Phishing_Training_Result.json'', trainResultJsonData),
                      (''Phishing_Testing_Data.json'', ''[]'')] @ chunks))"
proof (intro conjI impI)
  assume "elems trainSet = []"
  from views_of_empty [OF this]
  show "ConvertToJSON (MarshalIndent_slice (json_TrainingEmailRecord enc)) (trainEmailSet_of trainSet) =
        Inr ''null''"
    and "ConvertToJSON (MarshalIndent_slice (json_TrainingResultRecord enc)) (trainResultSet_of trainSet) =
        Inr ''null''"
    by (simp_all add: ConvertToJSON_nil)
next
  assume "SplitData prng_Perm records trainCount 0 = Inr (subset1, testSet, subset3)"
  from SplitData_no_test [OF this]
  show "ConvertToJSON (MarshalIndent_slice (json_EmailRecord enc)) testSet = Inr ''[]''"
    by (simp add: ConvertToJSON_empty)
next
  assume "run_main os_Open prng_Perm enc fault fs 0 testCount maxFileSizeKB = (fs', None)"
  from run_main_success [OF this] obtain rs trainSet testSet learnSet a b c chunks where
    sp: "SplitData prng_Perm rs 0 testCount = Inr (trainSet, testSet, learnSet)"
    and a: "ConvertToJSON (MarshalIndent_slice (json_TrainingEmailRecord enc)) (trainEmailSet_of trainSet) = Inr a"
    and b: "ConvertToJSON (MarshalIndent_slice (json_TrainingResultRecord enc)) (trainResultSet_of trainSet) = Inr b"
    and fs': "fs' = fs @ [(''Phishing_Training_Data.json'', a),
                       (''Phishing_Training_Result.json'', b),
                       (''Phishing_Testing_Data.json'', c)] @ chunks"
    by blast
  from SplitData_no_train [OF sp] have "elems trainSet = []" by (simp add: elems_def)
  from views_of_empty [OF this] a b have "a = ''null''" "b = ''null''"
    by (simp_all add: ConvertToJSON_nil)
  with fs' show "\<exists>testJSONData chunks.
         fs' = fs @ [(''Phishing_Training_Data.json'', ''null''),
                     (''Phishing_Training_Result.json'', ''null''),
                     (''Phishing_Testing_Data.json'', testJSONData)] @ chunks"
    by blast
next
  assume "run_main os_Open prng_Perm enc fault fs trainCount 0 maxFileSizeKB = (fs'', None)"
  from run_main_success [OF this] obtain rs trainSet testSet learnSet a b c chunks where
    sp: "SplitData prng_Perm rs trainCount 0 = Inr (trainSet, testSet, learnSet)"
    and c: "ConvertToJSON (MarshalIndent_slice (json_EmailRecord enc)) testSet = Inr c"
    and fs'': "fs'' = fs @ [(''Phishing_Training_Data.json'', a),
                       (''Phishing_Training_Result.json'', b),
                       (''Phishing_Testing_Data.json'', c)] @ chunks"
    by blast
  from SplitData_no_test [OF sp] c have "c = ''[]''"
    by (simp add: ConvertToJSON_empty)
  with fs'' show "\<exists>trainEmailJsonData trainResultJsonData chunks.
         fs'' = fs @ [(''Phishing_Training_Data.json'', trainEmailJsonData),
                      (''Phishing_Training_Result.json'', trainResultJsonData),
                      (''Phishing_Testing_Data.json'', ''[]'')] @ chunks"
    by blast
qed

theorem main_empty_subsets_witness:
  "\<exists>chunks.
     run_main (\<lambda>name. Inr [Inr [''id'', ''email'', ''label''],
                            Inr [''1'', ''a@x'', ''Phishing Email''],
                            Inr [''2'', ''b@x'', ''Safe Email''],
                            Inr [''3'', ''c@x'', ''Safe Email'']])
       (\<lambda>n. [2, 0, 1]) json_quote (\<lambda>fs name data. None) [] 0 0 5000 =
     ([(''Phishing_Training_Data.json'', ''null''),
       (''Phishing_Training_Result.json'', ''null''),
       (''Phishing_Testing_Data.json'', ''[]'')] @ chunks, None)"
proof -
  let ?run = "run_main (\<lambda>name. Inr [Inr [''id'', ''email'', ''label''],
                            Inr [''1'', ''a@x'', ''Phishing Email''],
                            Inr [''2'', ''b@x'', ''Safe Email''],
                            Inr [''3'', ''c@x'', ''Safe Email'']])
       (\<lambda>n. [2, 0, 1]) json_quote (\<lambda>fs name data. None) [] 0 0 5000"
  have "snd ?run = None"
    by (simp add: run_main_def ReadCSV_def csv_NewReader_def csv_Read_def new_EmailRecord_def index_def
        SplitData_def go_slice_expr_def go_make_def elems_def trainEmailSet_of_def trainResultSet_of_def
        ConvertToJSON_def MarshalIndent_slice_def WriteJSON_def os_WriteFile_def
        SplitAndWriteJSON_def maxSize_of_def MarshalIndent_EmailRecords_def
        json_slice_def json_EmailRecord_def json_quote_def json_bool_def newline_def subslice_def)
  then have run: "?run = (fst ?run, None)" by (metis prod.collapse)
  note inst = main_empty_subsets [where os_Open = "\<lambda>name. Inr [Inr [''id'', ''email'', ''label''],
                            Inr [''1'', ''a@x'', ''Phishing Email''],
                            Inr [''2'', ''b@x'', ''Safe Email''],
                            Inr [''3'', ''c@x'', ''Safe Email'']]"
      and prng_Perm = "\<lambda>n. [2, 0, 1]" and enc = json_quote and fault = "\<lambda>fs name data. None"
      and fs = "[]" and trainCount = 0 and testCount = 0 and maxFileSizeKB = 5000
      and fs' = "fst ?run" and fs'' = "fst ?run"]
  from inst run obtain t chunks where
    one: "fst ?run = [] @ [(''Phishing_Training_Data.json'', ''null''),
                     (''Phishing_Training_Result.json'', ''null''),
                     (''Phishing_Testing_Data.json'', t)] @ chunks"
    by blast
  from inst run obtain a b chunks' where
    two: "fst ?run = [] @ [(''Phishing_Training_Data.json'', a),
                      (''Phishing_Training_Result.json'', b),
                      (''Phishing_Testing_Data.json'', ''[]'')] @ chunks'"
    by blast
  from one two have "t = ''[]''" by simp
  with one run show ?thesis by auto
qed

end
